theory Spec2Isabelle
  imports Main "HOL-Library.Word" "HOL-Library.Sublist"
begin

section \<open>JavaScript strings\<close>

text \<open>
  A JavaScript string is a sequence of UTF-16 code units; \<open>length\<close>, \<open>split\<close>,
  \<open>trim\<close>, \<open>replace\<close> and \<open>===\<close> all work on code units. A string literal of
  the source that is ASCII is written \<open>js ''...''\<close>; the emoji and dashes of the reply
  texts are written as their code units.
\<close>

type_synonym unit16 = "16 word"
type_synonym jsstring = "unit16 list"

definition js :: "string \<Rightarrow> jsstring" where
  "js s = map (\<lambda>c. of_nat (of_char c)) s"

definition LF :: unit16 where "LF = 0x0A"
definition COMMA :: unit16 where "COMMA = 0x2C"
definition PLUS :: unit16 where "PLUS = 0x2B"

text \<open>
  \<open>String.prototype.trim\<close> removes WhiteSpace and LineTerminator code points from both
  ends (ECMA-262): TAB, LF, VT, FF, CR, SP, NBSP, U+1680, U+2000..U+200A, U+2028, U+2029,
  U+202F, U+205F, U+3000 and U+FEFF.
\<close>

definition isWhiteSpace :: "unit16 \<Rightarrow> bool" where
  "isWhiteSpace c \<longleftrightarrow>
     c = 0x09 \<or> c = 0x0A \<or> c = 0x0B \<or> c = 0x0C \<or> c = 0x0D \<or> c = 0x20 \<or> c = 0xA0 \<or>
     c = 0x1680 \<or> (0x2000 \<le> c \<and> c \<le> 0x200A) \<or> c = 0x2028 \<or> c = 0x2029 \<or>
     c = 0x202F \<or> c = 0x205F \<or> c = 0x3000 \<or> c = 0xFEFF"

definition trim :: "jsstring \<Rightarrow> jsstring" where
  "trim s = rev (dropWhile isWhiteSpace (rev (dropWhile isWhiteSpace s)))"

text \<open>
  \<open>String.prototype.toLowerCase\<close>. The source only ever compares the result with the
  ASCII literals \<open>/help\<close>, \<open>/status\<close> and \<open>/tasks\<close>. The code units whose lower-case
  mapping is ASCII are the ASCII units themselves (A-Z to a-z, the others fixed) and
  U+212A KELVIN SIGN (to k). The mapping of every other unit has a unit outside ASCII
  (U+0130 gives i followed by U+0307); such a unit is left as it is here, so that a
  string with one is, here as there, different from each of the three literals.
\<close>

definition lowerUnit :: "unit16 \<Rightarrow> unit16" where
  "lowerUnit c = (if 0x41 \<le> c \<and> c \<le> 0x5A then c + 0x20 else if c = 0x212A then 0x6B else c)"

definition toLowerCase :: "jsstring \<Rightarrow> jsstring" where
  "toLowerCase s = map lowerUnit s"

text \<open>
  \<open>s.replace(pat, rep)\<close> with a string pattern replaces the first occurrence of
  \<open>pat\<close>; the source's replacement is always the empty string, so the \<open>$\<close> patterns
  of a replacement string play no part.
\<close>

fun replace :: "jsstring \<Rightarrow> jsstring \<Rightarrow> jsstring \<Rightarrow> jsstring" where
  "replace pat rep [] = (if pat = [] then rep else [])"
| "replace pat rep (c # cs) =
     (if prefix pat (c # cs) then rep @ drop (length pat) (c # cs)
      else c # replace pat rep cs)"

text \<open>\<open>n.replace(/^\+/, '')\<close>: one leading plus sign is removed.\<close>

fun replace_leading_plus :: "jsstring \<Rightarrow> jsstring" where
  "replace_leading_plus [] = []"
| "replace_leading_plus (c # cs) = (if c = PLUS then cs else c # cs)"

text \<open>
  \<open>s.split(sep)\<close> for a separator of one code unit: the pieces between the
  separators, so the result is never empty and \<open>''.split(sep)\<close> is \<open>['']\<close>.
\<close>

fun split :: "unit16 \<Rightarrow> jsstring \<Rightarrow> jsstring list" where
  "split sep [] = [[]]"
| "split sep (c # cs) =
     (if c = sep then [] # split sep cs
      else (case split sep cs of
              [] \<Rightarrow> [[c]]
            | l # ls \<Rightarrow> (c # l) # ls))"

text \<open>Template-literal rendering of a non-negative integer: its decimal digits.\<close>

fun digit :: "nat \<Rightarrow> unit16" where
  "digit d = of_nat (48 + d)"

function decimal :: "nat \<Rightarrow> jsstring" where
  "decimal n = (if n < 10 then [digit n] else decimal (n div 10) @ [digit (n mod 10)])"
  by pat_completeness auto
termination
  by (relation "measure id") auto

text \<open>
  The exit code given to the \<open>close\<close> listener is an integer, or \<open>null\<close> when the
  process was ended by a signal; \<open>`${code}`\<close> renders them as follows.
\<close>

fun render_code :: "int option \<Rightarrow> jsstring" where
  "render_code None = js ''null''"
| "render_code (Some c) = (if c < 0 then js ''-'' @ decimal (nat (- c)) else decimal (nat c))"

section \<open>Reply chunker\<close>

definition MAX_RESPONSE_LENGTH :: nat where
  "MAX_RESPONSE_LENGTH = 4000"

text \<open>
  The label of a part, \<open>`\<dots> *Part ${part}:*\n\n`\<close>, where the first two code units are
  the surrogate pair of U+1F4C4 (the page emoji).
\<close>

definition part_label :: "nat \<Rightarrow> jsstring" where
  "part_label part = [0xD83D, 0xDCC4] @ js '' *Part '' @ decimal part @ js '':*'' @ [LF, LF]"

text \<open>
  The loop of \<open>sendLongMessage\<close> over the lines, with its two variables \<open>chunk\<close> and
  \<open>part\<close>; the result is the list of texts handed to the transport, in order. The
  statement after the loop sends the last buffer unless it is blank.
\<close>

fun chunk_loop :: "jsstring \<Rightarrow> nat \<Rightarrow> jsstring list \<Rightarrow> jsstring list" where
  "chunk_loop chunk part [] =
     (if trim chunk \<noteq> [] then [if part > 1 then part_label part @ chunk else chunk] else [])"
| "chunk_loop chunk part (line # lines) =
     (if length chunk + length line + 1 > MAX_RESPONSE_LENGTH
      then (part_label part @ chunk) # chunk_loop (line @ [LF]) (part + 1) lines
      else chunk_loop (chunk @ line @ [LF]) part lines)"

definition sendLongMessage :: "jsstring \<Rightarrow> jsstring list" where
  "sendLongMessage text =
     (if length text \<le> MAX_RESPONSE_LENGTH then [text]
      else chunk_loop [] 1 (split LF text))"

section \<open>Configuration\<close>

text \<open>
  The two implementations are \<open>src/whatsapp-bridge/index.js\<close> (on whatsapp-web.js;
  its definitions carry the suffix \<open>_wweb\<close>) and \<open>src/unnamed/part_000\<close> (on Baileys;
  suffix \<open>_baileys\<close>). What is the same in both has no suffix.

  The environment variable \<open>WA_AUTHORIZED_NUMBERS\<close> is \<open>undefined\<close> (\<open>None\<close>) or a
  string; \<open>undefined\<close> and the empty string are falsy. \<open>WORK_DIR\<close> is the resolved
  working directory.
\<close>

record config =
  WA_AUTHORIZED_NUMBERS :: "jsstring option"
  WORK_DIR :: jsstring

definition AUTHORIZED_NUMBERS_wweb :: "config \<Rightarrow> jsstring list" where
  "AUTHORIZED_NUMBERS_wweb cfg =
     (case WA_AUTHORIZED_NUMBERS cfg of
        None \<Rightarrow> []
      | Some s \<Rightarrow> if s = [] then [] else map (\<lambda>n. trim n) (split COMMA s))"

definition AUTHORIZED_NUMBERS_baileys :: "config \<Rightarrow> jsstring list" where
  "AUTHORIZED_NUMBERS_baileys cfg =
     (case WA_AUTHORIZED_NUMBERS cfg of
        None \<Rightarrow> []
      | Some s \<Rightarrow> if s = [] then []
                 else map (\<lambda>n. replace_leading_plus (trim n)) (split COMMA s))"

section \<open>Assistant invoker\<close>

text \<open>
  \<open>runClaude\<close> returns a promise and registers listeners on the child process and a
  timer. The listeners run one at a time, in the order the events arrive. A promise
  settles at the first call of \<open>resolve\<close> or \<open>reject\<close>; later calls do nothing.
\<close>

datatype outcome = Resolved jsstring | Rejected jsstring

datatype proc_event =
    Stdout jsstring
  | Stderr jsstring
  | Close "int option"
  | SpawnError jsstring
  | TimerFired

text \<open>
  The variables of one call: \<open>output\<close> (here \<open>outputStr\<close>), \<open>errorOutput\<close>,
  \<open>killed\<close> (only the Baileys file has it), the promise's state, and the number of
  \<open>proc.kill('SIGTERM')\<close> calls made.
\<close>

record run =
  outputStr :: jsstring
  errorOutput :: jsstring
  killed :: bool
  settled :: "outcome option"
  kills :: nat

definition new_run :: run where
  "new_run = \<lparr>outputStr = [], errorOutput = [], killed = False, settled = None, kills = 0\<rparr>"

definition settle :: "outcome \<Rightarrow> run \<Rightarrow> run" where
  "settle oc r = (if settled r = None then r\<lparr>settled := Some oc\<rparr> else r)"

definition close_outcome :: "int option \<Rightarrow> run \<Rightarrow> outcome" where
  "close_outcome code r =
     (if code = Some 0 \<or> length (outputStr r) > 0
      then Resolved (if trim (outputStr r) \<noteq> [] then trim (outputStr r) else js ''(No output)'')
      else Rejected (if trim (errorOutput r) \<noteq> [] then trim (errorOutput r)
                     else js ''Claude exited with code '' @ render_code code))"

definition on_close_wweb :: "int option \<Rightarrow> run \<Rightarrow> run" where
  "on_close_wweb code r = settle (close_outcome code r) r"

definition on_close_baileys :: "int option \<Rightarrow> run \<Rightarrow> run" where
  "on_close_baileys code r = (if killed r then r else settle (close_outcome code r) r)"

definition on_error :: "jsstring \<Rightarrow> run \<Rightarrow> run" where
  "on_error msg r = settle (Rejected (js ''Failed to run Claude: '' @ msg)) r"

definition on_timeout_wweb :: "run \<Rightarrow> run" where
  "on_timeout_wweb r =
     settle (Rejected (js ''Command timed out after 5 minutes'')) (r\<lparr>kills := kills r + 1\<rparr>)"

definition on_timeout_baileys :: "run \<Rightarrow> run" where
  "on_timeout_baileys r =
     settle (Rejected (js ''Command timed out after 5 minutes''))
       (r\<lparr>killed := True, kills := kills r + 1\<rparr>)"

fun runClaude_step_wweb :: "proc_event \<Rightarrow> run \<Rightarrow> run" where
  "runClaude_step_wweb (Stdout d) r = r\<lparr>outputStr := outputStr r @ d\<rparr>"
| "runClaude_step_wweb (Stderr d) r = r\<lparr>errorOutput := errorOutput r @ d\<rparr>"
| "runClaude_step_wweb (Close code) r = on_close_wweb code r"
| "runClaude_step_wweb (SpawnError msg) r = on_error msg r"
| "runClaude_step_wweb TimerFired r = on_timeout_wweb r"

fun runClaude_step_baileys :: "proc_event \<Rightarrow> run \<Rightarrow> run" where
  "runClaude_step_baileys (Stdout d) r = r\<lparr>outputStr := outputStr r @ d\<rparr>"
| "runClaude_step_baileys (Stderr d) r = r\<lparr>errorOutput := errorOutput r @ d\<rparr>"
| "runClaude_step_baileys (Close code) r = on_close_baileys code r"
| "runClaude_step_baileys (SpawnError msg) r = on_error msg r"
| "runClaude_step_baileys TimerFired r = on_timeout_baileys r"

text \<open>A run from its start through a sequence of events.\<close>

definition runClaude_wweb :: "proc_event list \<Rightarrow> run" where
  "runClaude_wweb evs = foldl (\<lambda>r ev. runClaude_step_wweb ev r) new_run evs"

definition runClaude_baileys :: "proc_event list \<Rightarrow> run" where
  "runClaude_baileys evs = foldl (\<lambda>r ev. runClaude_step_baileys ev r) new_run evs"

text \<open>The call \<open>spawn('claude', ['--print', '--max-turns', '3', prompt], {cwd, ...})\<close>.\<close>

datatype effect =
    Reply jsstring jsstring
  | Spawn jsstring "jsstring list" jsstring

definition spawn_claude :: "jsstring \<Rightarrow> jsstring \<Rightarrow> effect" where
  "spawn_claude prompt cwd =
     Spawn (js ''claude'') [js ''--print'', js ''--max-turns'', js ''3'', prompt] cwd"

fun is_spawn :: "effect \<Rightarrow> bool" where
  "is_spawn (Spawn cmd args cwd) = True"
| "is_spawn (Reply dest text) = False"

fun is_reply :: "effect \<Rightarrow> bool" where
  "is_reply (Reply dest text) = True"
| "is_reply (Spawn cmd args cwd) = False"

section \<open>Session tracker\<close>

text \<open>
  \<open>activeSessions\<close> maps a sender identity to an object \<open>{ busy }\<close>; the object has
  this one field, so the map's value is the flag. \<open>session?.busy\<close> is falsy for a sender
  with no entry.
\<close>

type_synonym sessions = "jsstring \<rightharpoonup> bool"

definition busy :: "sessions \<Rightarrow> jsstring \<Rightarrow> bool" where
  "busy m sender = (case m sender of None \<Rightarrow> False | Some b \<Rightarrow> b)"

text \<open>
  The state of a bridge: the session map, the calls made to the outside so far
  (replies handed to the transport and subprocesses spawned, in order), and the
  \<open>runClaude\<close> calls made so far, each with what its awaiting handler still has to do.
  Writing to the console is left out. The transport's send operation is taken to
  resolve; a handler therefore suspends only while it awaits \<open>runClaude\<close>.
\<close>

record 't bridge =
  activeSessions :: sessions
  effects :: "effect list"
  tasks :: "'t list"

definition initial :: "'t bridge" where
  "initial = \<lparr>activeSessions = Map.empty, effects = [], tasks = []\<rparr>"

datatype 'm event = Inbound 'm | Proc nat proc_event

definition send_reply :: "jsstring \<Rightarrow> jsstring \<Rightarrow> 't bridge \<Rightarrow> 't bridge" where
  "send_reply dest text w = w\<lparr>effects := effects w @ [Reply dest text]\<rparr>"

definition send_all :: "jsstring \<Rightarrow> jsstring list \<Rightarrow> 't bridge \<Rightarrow> 't bridge" where
  "send_all dest texts w = w\<lparr>effects := effects w @ map (Reply dest) texts\<rparr>"

definition set_busy :: "jsstring \<Rightarrow> bool \<Rightarrow> 't bridge \<Rightarrow> 't bridge" where
  "set_busy sender b w = w\<lparr>activeSessions := (activeSessions w)(sender \<mapsto> b)\<rparr>"

definition spawns :: "'t bridge \<Rightarrow> effect list" where
  "spawns w = filter is_spawn (effects w)"

definition replies :: "'t bridge \<Rightarrow> effect list" where
  "replies w = filter is_reply (effects w)"

section \<open>Reply texts\<close>

definition TASKS_PROMPT :: jsstring where
  "TASKS_PROMPT = js ''List all tasks from data/tasks.json with their status. Be concise.''"

definition PROCESSING :: jsstring where
  "PROCESSING = [0xD83D, 0xDD04] @ js '' Processing...''"

definition STILL_PROCESSING_wweb :: jsstring where
  "STILL_PROCESSING_wweb =
     [0x23F3] @ js '' Still processing your previous command. Please wait...''"

definition STILL_PROCESSING_baileys :: jsstring where
  "STILL_PROCESSING_baileys = [0x23F3] @ js '' Still processing your previous command...''"

definition error_reply :: "jsstring \<Rightarrow> jsstring" where
  "error_reply msg = [0x274C] @ js '' Error: '' @ msg"

definition HELP_wweb :: jsstring where
  "HELP_wweb =
     [0xD83E, 0xDD16] @ js '' *Mission Control WhatsApp Bridge*'' @ [LF, LF] @
     js ''Send any message and Claude will process it.'' @ [LF, LF] @
     js ''*Commands:*'' @ [LF] @
     [0x60] @ js ''/help'' @ [0x60, 0x20, 0x2014] @ js '' Show this help'' @ [LF] @
     [0x60] @ js ''/status'' @ [0x60, 0x20, 0x2014] @ js '' Check bridge status'' @ [LF] @
     [0x60] @ js ''/tasks'' @ [0x60, 0x20, 0x2014] @ js '' List current tasks'' @ [LF, LF] @
     js ''*Examples:*'' @ [LF] @
     [0x2022, 0x20, 0x22] @ js ''Show me the current tasks'' @ [0x22, LF] @
     [0x2022, 0x20, 0x22] @ js ''Create a new task: Fix login bug'' @ [0x22, LF] @
     [0x2022, 0x20, 0x22] @ js ''What files were changed recently?'' @ [0x22, LF] @
     [0x2022, 0x20, 0x22] @ js ''Run the tests'' @ [0x22, LF, LF] @
     js ''Everything else is sent directly to Claude Code.''"

definition HELP_baileys :: jsstring where
  "HELP_baileys =
     [0xD83E, 0xDD16] @ js '' *Mission Control WhatsApp Bridge*'' @ [LF, LF] @
     js ''Send any message and Claude will process it.'' @ [LF, LF] @
     js ''*Commands:*'' @ [LF] @
     js ''/help '' @ [0x2014] @ js '' Show this help'' @ [LF] @
     js ''/status '' @ [0x2014] @ js '' Bridge status'' @ [LF] @
     js ''/tasks '' @ [0x2014] @ js '' List tasks'' @ [LF, LF] @
     js ''*Examples:*'' @ [LF] @
     [0x2022, 0x20, 0x22] @ js ''Show me the current tasks'' @ [0x22, LF] @
     [0x2022, 0x20, 0x22] @ js ''Create a new task: Fix login bug'' @ [0x22, LF] @
     [0x2022, 0x20, 0x22] @ js ''What files changed recently?'' @ [0x22, LF] @
     [0x2022, 0x20, 0x22] @ js ''Run the tests'' @ [0x22]"

definition status_wweb :: "config \<Rightarrow> bool \<Rightarrow> jsstring" where
  "status_wweb cfg b =
     [0xD83D, 0xDFE2] @ js '' *Bridge Status*'' @ [LF, LF] @
     js ''Working directory: '' @ [0x60] @ WORK_DIR cfg @ [0x60, LF] @
     js ''Session active: '' @ (if b then js ''Yes (processing...)'' else js ''Idle'')"

definition status_baileys :: "config \<Rightarrow> bool \<Rightarrow> jsstring" where
  "status_baileys cfg b =
     [0xD83D, 0xDFE2] @ js '' *Bridge Status*'' @ [LF, LF] @
     js ''Dir: '' @ WORK_DIR cfg @ [LF] @
     js ''Busy: '' @ (if b then js ''Yes'' else js ''No'')"

section \<open>Message router of \<open>src/whatsapp-bridge/index.js\<close>\<close>

text \<open>
  The fields of an inbound message that the handler reads; \<open>message.from\<close> is
  \<open>msg_from\<close> here. \<open>message.reply(text)\<close> answers in the chat \<open>message.from\<close>.
\<close>

record wweb_message =
  isGroupMsg :: bool
  isStatus :: bool
  body :: jsstring
  msg_from :: jsstring

datatype kind = TasksCommand | FreeForm

record wweb_task =
  tw_message :: wweb_message
  tw_kind :: kind
  tw_run :: run

definition sender_wweb :: "wweb_message \<Rightarrow> jsstring" where
  "sender_wweb m = replace (js ''@c.us'') [] (msg_from m)"

text \<open>
  What follows \<open>await runClaude(...)\<close> inside the \<open>try\<close>: the result is sent by
  \<open>sendLongMessage\<close>, a rejection is caught and its message sent.
\<close>

definition deliver :: "jsstring \<Rightarrow> outcome \<Rightarrow> 't bridge \<Rightarrow> 't bridge" where
  "deliver dest oc w =
     (case oc of
        Resolved result \<Rightarrow> send_all dest (sendLongMessage result) w
      | Rejected msg \<Rightarrow> send_reply dest (error_reply msg) w)"

text \<open>
  The handler up to its first suspension. The \<open>/tasks\<close> branch calls \<open>runClaude\<close>
  directly; the free-form branch checks and sets the busy flag, acknowledges, and calls
  \<open>runClaude\<close>.
\<close>

definition on_message_wweb :: "config \<Rightarrow> wweb_message \<Rightarrow> wweb_task bridge \<Rightarrow> wweb_task bridge" where
  "on_message_wweb cfg m w =
     (if isGroupMsg m \<or> isStatus m \<or> body m = [] then w
      else
        let sender = sender_wweb m in
        if length (AUTHORIZED_NUMBERS_wweb cfg) = 0 \<or> sender \<notin> set (AUTHORIZED_NUMBERS_wweb cfg)
        then w
        else
          let text = trim (body m) in
          if toLowerCase text = js ''/help'' then send_reply (msg_from m) HELP_wweb w
          else if toLowerCase text = js ''/status''
          then send_reply (msg_from m) (status_wweb cfg (busy (activeSessions w) sender)) w
          else if toLowerCase text = js ''/tasks''
          then w\<lparr>effects := effects w @ [spawn_claude TASKS_PROMPT (WORK_DIR cfg)],
                 tasks := tasks w @ [\<lparr>tw_message = m, tw_kind = TasksCommand, tw_run = new_run\<rparr>]\<rparr>
          else if busy (activeSessions w) sender
          then send_reply (msg_from m) STILL_PROCESSING_wweb w
          else
            let w1 = set_busy sender True w;
                w2 = send_reply (msg_from m) PROCESSING w1
            in w2\<lparr>effects := effects w2 @ [spawn_claude text (WORK_DIR cfg)],
                   tasks := tasks w2 @ [\<lparr>tw_message = m, tw_kind = FreeForm, tw_run = new_run\<rparr>]\<rparr>)"

text \<open>
  The handler from the settling of its \<open>runClaude\<close> promise to its end; only the
  free-form branch has the \<open>finally\<close> that writes \<open>{ busy: false }\<close>.
\<close>

definition resume_wweb :: "wweb_task \<Rightarrow> outcome \<Rightarrow> wweb_task bridge \<Rightarrow> wweb_task bridge" where
  "resume_wweb t oc w =
     (case tw_kind t of
        TasksCommand \<Rightarrow> deliver (msg_from (tw_message t)) oc w
      | FreeForm \<Rightarrow>
          set_busy (sender_wweb (tw_message t)) False (deliver (msg_from (tw_message t)) oc w))"

text \<open>
  An event of the \<open>i\<close>-th child process (or of its timer) runs the listener; when the
  promise settles by it, the awaiting handler resumes.
\<close>

definition on_proc_wweb :: "nat \<Rightarrow> proc_event \<Rightarrow> wweb_task bridge \<Rightarrow> wweb_task bridge" where
  "on_proc_wweb i ev w =
     (if i < length (tasks w) then
        let t = tasks w ! i;
            r = runClaude_step_wweb ev (tw_run t);
            w1 = w\<lparr>tasks := (tasks w)[i := t\<lparr>tw_run := r\<rparr>]\<rparr>
        in (case settled (tw_run t) of
              Some oc \<Rightarrow> w1
            | None \<Rightarrow> (case settled r of None \<Rightarrow> w1 | Some oc \<Rightarrow> resume_wweb t oc w1))
      else w)"

fun step_wweb :: "config \<Rightarrow> wweb_message event \<Rightarrow> wweb_task bridge \<Rightarrow> wweb_task bridge" where
  "step_wweb cfg (Inbound m) w = on_message_wweb cfg m w"
| "step_wweb cfg (Proc i ev) w = on_proc_wweb i ev w"

definition run_wweb :: "config \<Rightarrow> wweb_message event list \<Rightarrow> wweb_task bridge" where
  "run_wweb cfg evs = foldl (\<lambda>w e. step_wweb cfg e w) initial evs"

text \<open>The invocations of a sender that are in flight: started and not yet settled.\<close>

definition in_flight_wweb :: "wweb_task bridge \<Rightarrow> jsstring \<Rightarrow> nat" where
  "in_flight_wweb w sender =
     length (filter (\<lambda>t. sender_wweb (tw_message t) = sender \<and> settled (tw_run t) = None) (tasks w))"

section \<open>Message router of \<open>src/unnamed/part_000\<close>\<close>

text \<open>
  The fields of a message of a \<open>messages.upsert\<close> batch that the handler reads:
  \<open>msg.key.fromMe\<close>, \<open>msg.key.remoteJid\<close> and \<open>msg.message\<close> (absent, or an object
  with the optional fields \<open>conversation\<close> and \<open>extendedTextMessage.text\<close>).
  \<open>sock.sendMessage(jid, { text })\<close> sends to the chat \<open>jid\<close>.
\<close>

record msg_content =
  conversation :: "jsstring option"
  extendedTextMessage_text :: "jsstring option"

record baileys_msg =
  key_fromMe :: bool
  key_remoteJid :: jsstring
  msg_message :: "msg_content option"

record baileys_task =
  tb_jid :: jsstring
  tb_run :: run
  tb_rest :: "baileys_msg list"

text \<open>\<open>a || b\<close> on optional strings: \<open>undefined\<close> and the empty string are falsy.\<close>

fun or_else :: "jsstring option \<Rightarrow> jsstring option \<Rightarrow> jsstring option" where
  "or_else None b = b"
| "or_else (Some s) b = (if s = [] then b else Some s)"

definition text_of :: "msg_content \<Rightarrow> jsstring" where
  "text_of c =
     (case or_else (or_else (conversation c) (extendedTextMessage_text c)) (Some []) of
        None \<Rightarrow> []
      | Some s \<Rightarrow> s)"

definition sender_baileys :: "jsstring \<Rightarrow> jsstring" where
  "sender_baileys jid = replace (js ''@s.whatsapp.net'') [] jid"

text \<open>
  \<open>handleMessage\<close> up to its first suspension; the flag says whether it now awaits
  \<open>runClaude\<close> (otherwise it has returned).
\<close>

definition handleMessage :: "config \<Rightarrow> jsstring \<Rightarrow> jsstring \<Rightarrow> baileys_task bridge \<Rightarrow> baileys_task bridge \<times> bool" where
  "handleMessage cfg jid text0 w =
     (let sender = sender_baileys jid in
      if toLowerCase text0 = js ''/help'' then (send_reply jid HELP_baileys w, False)
      else if toLowerCase text0 = js ''/status''
      then (send_reply jid (status_baileys cfg (busy (activeSessions w) sender)) w, False)
      else
        let text = (if toLowerCase text0 = js ''/tasks'' then TASKS_PROMPT else text0) in
        if busy (activeSessions w) sender
        then (send_reply jid STILL_PROCESSING_baileys w, False)
        else
          let w1 = set_busy sender True w;
              w2 = send_reply jid PROCESSING w1
          in (w2\<lparr>effects := effects w2 @ [spawn_claude text (WORK_DIR cfg)]\<rparr>, True))"

text \<open>\<open>handleMessage\<close> from the settling of its \<open>runClaude\<close> promise to its end.\<close>

definition handleMessage_resume :: "jsstring \<Rightarrow> outcome \<Rightarrow> baileys_task bridge \<Rightarrow> baileys_task bridge" where
  "handleMessage_resume jid oc w = set_busy (sender_baileys jid) False (deliver jid oc w)"

text \<open>
  The listener of \<open>messages.upsert\<close>: a loop over the batch that awaits
  \<open>handleMessage\<close> for each message it lets through. When \<open>handleMessage\<close> suspends, so
  does the loop, and the rest of the batch waits with it.
\<close>

fun messages_upsert :: "config \<Rightarrow> baileys_msg list \<Rightarrow> baileys_task bridge \<Rightarrow> baileys_task bridge" where
  "messages_upsert cfg [] w = w"
| "messages_upsert cfg (msg # msgs) w =
     (case msg_message msg of
        None \<Rightarrow> messages_upsert cfg msgs w
      | Some content \<Rightarrow>
          if key_fromMe msg \<or> suffix (js ''@g.us'') (key_remoteJid msg)
             \<or> key_remoteJid msg = js ''status@broadcast''
          then messages_upsert cfg msgs w
          else if trim (text_of content) = [] then messages_upsert cfg msgs w
          else if length (AUTHORIZED_NUMBERS_baileys cfg) = 0
                  \<or> sender_baileys (key_remoteJid msg) \<notin> set (AUTHORIZED_NUMBERS_baileys cfg)
          then messages_upsert cfg msgs w
          else
            (case handleMessage cfg (key_remoteJid msg) (trim (text_of content)) w of
               (w1, awaiting) \<Rightarrow>
                 if awaiting
                 then w1\<lparr>tasks := tasks w1 @
                         [\<lparr>tb_jid = key_remoteJid msg, tb_run = new_run, tb_rest = msgs\<rparr>]\<rparr>
                 else messages_upsert cfg msgs w1))"

definition on_proc_baileys :: "config \<Rightarrow> nat \<Rightarrow> proc_event \<Rightarrow> baileys_task bridge \<Rightarrow> baileys_task bridge" where
  "on_proc_baileys cfg i ev w =
     (if i < length (tasks w) then
        let t = tasks w ! i;
            r = runClaude_step_baileys ev (tb_run t);
            w1 = w\<lparr>tasks := (tasks w)[i := t\<lparr>tb_run := r\<rparr>]\<rparr>
        in (case settled (tb_run t) of
              Some oc \<Rightarrow> w1
            | None \<Rightarrow>
                (case settled r of
                   None \<Rightarrow> w1
                 | Some oc \<Rightarrow> messages_upsert cfg (tb_rest t) (handleMessage_resume (tb_jid t) oc w1)))
      else w)"

fun step_baileys :: "config \<Rightarrow> baileys_msg list event \<Rightarrow> baileys_task bridge \<Rightarrow> baileys_task bridge" where
  "step_baileys cfg (Inbound msgs) w = messages_upsert cfg msgs w"
| "step_baileys cfg (Proc i ev) w = on_proc_baileys cfg i ev w"

definition run_baileys :: "config \<Rightarrow> baileys_msg list event list \<Rightarrow> baileys_task bridge" where
  "run_baileys cfg evs = foldl (\<lambda>w e. step_baileys cfg e w) initial evs"

definition in_flight_baileys :: "baileys_task bridge \<Rightarrow> jsstring \<Rightarrow> nat" where
  "in_flight_baileys w sender =
     length (filter (\<lambda>t. sender_baileys (tb_jid t) = sender \<and> settled (tb_run t) = None) (tasks w))"

section \<open>Notions and example inputs used to state the properties\<close>

text \<open>
  A buffer of the chunker is a group of lines, each followed by a line break
  (\<open>joinlf\<close>). \<open>labelled_from k\<close> puts the labels \<open>Part k\<close>, \<open>Part k+1\<close>, ... before a
  list of bodies. \<open>line_groups\<close> follows the loop of \<open>sendLongMessage\<close> and keeps the lines
  of each buffer apart, the last buffer included.
\<close>

definition joinlf :: "jsstring list \<Rightarrow> jsstring" where
  "joinlf ls = concat (map (\<lambda>l. l @ [LF]) ls)"

fun labelled_from :: "nat \<Rightarrow> jsstring list \<Rightarrow> jsstring list" where
  "labelled_from k [] = []"
| "labelled_from k (b # bs) = (part_label k @ b) # labelled_from (Suc k) bs"

fun line_groups :: "jsstring list \<Rightarrow> jsstring list \<Rightarrow> jsstring list list" where
  "line_groups g [] = [g]"
| "line_groups g (line # lines) =
     (if length (joinlf g) + length line + 1 > MAX_RESPONSE_LENGTH
      then g # line_groups [line] lines
      else line_groups (g @ [line]) lines)"

text \<open>The groups of lines whose buffers are sent: the last one only if it is not blank.\<close>

definition sent_groups :: "jsstring \<Rightarrow> jsstring list list" where
  "sent_groups text =
     (let gs = line_groups [] (split LF text)
      in if trim (joinlf (last gs)) \<noteq> [] then gs else butlast gs)"

text \<open>
  An instance of the chunking scenario: 90 lines of 99 letters \<open>a\<close>, each followed by
  its line break, 9000 code units in all.
\<close>

definition line99 :: jsstring where
  "line99 = replicate 99 0x61"

definition text9000 :: jsstring where
  "text9000 = concat (replicate 90 (line99 @ [LF]))"

text \<open>The rejection made by the timer's callback.\<close>

definition TIMED_OUT :: outcome where
  "TIMED_OUT = Rejected (js ''Command timed out after 5 minutes'')"

text \<open>
  Example configurations and messages: no allow-list, an allow-list of one number, and a
  text message of a given sender in each transport's form.
\<close>

definition cfg_none :: config where
  "cfg_none = \<lparr>WA_AUTHORIZED_NUMBERS = None, WORK_DIR = js ''/srv''\<rparr>"

definition cfg_one :: config where
  "cfg_one = \<lparr>WA_AUTHORIZED_NUMBERS = Some (js ''4912345''), WORK_DIR = js ''/srv''\<rparr>"

definition wweb_msg :: "string \<Rightarrow> string \<Rightarrow> wweb_message" where
  "wweb_msg sender text =
     \<lparr>isGroupMsg = False, isStatus = False, body = js text, msg_from = js sender @ js ''@c.us''\<rparr>"

definition baileys_text :: "string \<Rightarrow> string \<Rightarrow> baileys_msg" where
  "baileys_text sender text =
     \<lparr>key_fromMe = False, key_remoteJid = js sender @ js ''@s.whatsapp.net'',
      msg_message = Some \<lparr>conversation = Some (js text), extendedTextMessage_text = None\<rparr>\<rparr>"

text \<open>
  \<open>Array.prototype.join\<close> with a separator of one code unit: how a list of entries is
  written as one configuration string.
\<close>

fun joinWith :: "unit16 \<Rightarrow> jsstring list \<Rightarrow> jsstring" where
  "joinWith sep [] = []"
| "joinWith sep [e] = e"
| "joinWith sep (e # e' # es) = e @ sep # joinWith sep (e' # es)"

text \<open>An allow-list whose one number is written with a leading plus sign.\<close>

definition cfg_plus :: config where
  "cfg_plus = \<lparr>WA_AUTHORIZED_NUMBERS = Some (js ''+4912345''), WORK_DIR = js ''/srv''\<rparr>"


text \<open>
  The bridge of each file after the first free-form message of the sender \<open>4912345\<close>,
  who is in the allow-list: the sender is busy and one invocation is in flight.
\<close>

definition busy_wweb :: "wweb_task bridge" where
  "busy_wweb = on_message_wweb cfg_one (wweb_msg ''4912345'' ''run the tests'') initial"


text \<open>
  The invariant of the Baileys bridge: a sender has one invocation in flight when busy,
  and none otherwise.
\<close>

definition one_per_sender :: "baileys_task bridge \<Rightarrow> bool" where
  "one_per_sender w \<longleftrightarrow>
     (\<forall>s. in_flight_baileys w s = (if busy (activeSessions w) s then 1 else 0))"

section \<open>Properties of strings and of the chunker\<close>

lemma split_not_Nil: "split sep s \<noteq> []"
  by (induction s) (auto split: list.splits)

lemma split_no_sep: "sep \<notin> set s \<Longrightarrow> split sep s = [s]"
  by (induction s) (auto split: list.splits)

lemma concat_split: "concat (map (\<lambda>l. l @ [sep]) (split sep s)) = s @ [sep]"
  by (induction s) (auto split: list.splits)

lemma joinlf_split: "joinlf (split LF s) = s @ [LF]"
  by (simp add: joinlf_def concat_split)

lemma joinlf_append: "joinlf (a @ b) = joinlf a @ joinlf b"
  by (simp add: joinlf_def)

lemma joinlf_single: "joinlf [l] = l @ [LF]"
  by (simp add: joinlf_def)

lemma labelled_from_append:
  "labelled_from k (xs @ ys) = labelled_from k xs @ labelled_from (k + length xs) ys"
  by (induction xs arbitrary: k) auto

lemma length_labelled_from: "length (labelled_from k bs) = length bs"
  by (induction bs arbitrary: k) auto

lemma labelled_from_inj: "labelled_from k bs = labelled_from k cs \<Longrightarrow> bs = cs"
proof (induction bs arbitrary: k cs)
  case Nil
  then show ?case by (cases cs) auto
next
  case (Cons b bs)
  then show ?case by (cases cs) auto
qed

lemma line_groups_not_Nil: "line_groups g lines \<noteq> []"
  by (induction g lines rule: line_groups.induct) auto

lemma concat_line_groups: "concat (line_groups g lines) = g @ lines"
  by (induction g lines rule: line_groups.induct) auto

lemma chunk_loop_groups:
  "chunk_loop (joinlf g) part lines =
     labelled_from part (map joinlf (butlast (line_groups g lines))) @
     (if trim (joinlf (last (line_groups g lines))) \<noteq> []
      then [if part + length (line_groups g lines) - 1 > 1
            then part_label (part + length (line_groups g lines) - 1) @ joinlf (last (line_groups g lines))
            else joinlf (last (line_groups g lines))]
      else [])"
proof (induction g lines arbitrary: part rule: line_groups.induct)
  case (1 g)
  then show ?case by simp
next
  case (2 g line lines)
  show ?case
  proof (cases "length (joinlf g) + length line + 1 > MAX_RESPONSE_LENGTH")
    case True
    have "chunk_loop (joinlf g) part (line # lines) =
            (part_label part @ joinlf g) # chunk_loop (joinlf [line]) (part + 1) lines"
      using True by (simp add: joinlf_single)
    then show ?thesis
      using True 2(1)[OF True, of "part + 1"] line_groups_not_Nil[of "[line]" lines]
      by simp
  next
    case False
    have "chunk_loop (joinlf g) part (line # lines) = chunk_loop (joinlf (g @ [line])) part lines"
      using False by (simp add: joinlf_append joinlf_single)
    then show ?thesis
      using False 2(2)[OF False, of part] by simp
  qed
qed

lemma line_groups_bounded:
  "length (joinlf g) \<le> MAX_RESPONSE_LENGTH \<Longrightarrow>
   \<forall>l\<in>set lines. length l + 1 \<le> MAX_RESPONSE_LENGTH \<Longrightarrow>
   \<forall>h\<in>set (line_groups g lines). length (joinlf h) \<le> MAX_RESPONSE_LENGTH"
  by (induction g lines rule: line_groups.induct)
     (auto simp: joinlf_append joinlf_single)

lemma line_groups_single:
  "length (joinlf g) \<le> MAX_RESPONSE_LENGTH \<Longrightarrow> length (line_groups g lines) \<le> 1 \<Longrightarrow>
   length (joinlf (g @ lines)) \<le> MAX_RESPONSE_LENGTH"
proof (induction g lines rule: line_groups.induct)
  case (1 g)
  then show ?case by simp
next
  case (2 g line lines)
  show ?case
  proof (cases "length (joinlf g) + length line + 1 > MAX_RESPONSE_LENGTH")
    case True
    then show ?thesis using 2(4) line_groups_not_Nil[of "[line]" lines]
      by (cases "line_groups [line] lines") auto
  next
    case False
    then have "length (joinlf (g @ [line])) \<le> MAX_RESPONSE_LENGTH"
      by (simp add: joinlf_append joinlf_single)
    then show ?thesis using 2(2)[OF False] 2(4) False by simp
  qed
qed

lemma long_text_two_groups:
  assumes "length text > MAX_RESPONSE_LENGTH"
  shows "length (line_groups [] (split LF text)) \<ge> 2"
proof (rule ccontr)
  assume "\<not> ?thesis"
  then have "length (line_groups [] (split LF text)) \<le> 1" by simp
  then have "length (joinlf ([] @ split LF text)) \<le> MAX_RESPONSE_LENGTH"
    by (intro line_groups_single) (simp_all add: joinlf_def)
  then show False using assms by (simp add: joinlf_split)
qed

lemma trim_Nil_iff: "trim s = [] \<longleftrightarrow> (\<forall>c\<in>set s. isWhiteSpace c)"
proof -
  have "set s = set (takeWhile isWhiteSpace s) \<union> set (dropWhile isWhiteSpace s)"
    by (metis set_append takeWhile_dropWhile_id)
  moreover have "\<forall>c\<in>set (takeWhile isWhiteSpace s). isWhiteSpace c"
    by (auto dest: set_takeWhileD)
  ultimately show ?thesis
    by (auto simp: trim_def dropWhile_eq_Nil_conv)
qed

lemma sendLongMessage_long:
  assumes "length text > MAX_RESPONSE_LENGTH"
  shows "sendLongMessage text = labelled_from 1 (map joinlf (sent_groups text))"
proof -
  let ?gs = "line_groups [] (split LF text)"
  have two: "length ?gs \<ge> 2" by (rule long_text_two_groups[OF assms])
  have ne: "?gs \<noteq> []" by (rule line_groups_not_Nil)
  have "sendLongMessage text = chunk_loop (joinlf []) 1 (split LF text)"
    using assms by (simp add: sendLongMessage_def joinlf_def)
  also have "\<dots> = labelled_from 1 (map joinlf (butlast ?gs)) @
     (if trim (joinlf (last ?gs)) \<noteq> [] then [part_label (length ?gs) @ joinlf (last ?gs)] else [])"
    using two by (simp add: chunk_loop_groups)
  also have "\<dots> = labelled_from 1 (map joinlf (sent_groups text))"
  proof (cases "trim (joinlf (last ?gs)) \<noteq> []")
    case True
    have "labelled_from 1 (map joinlf ?gs) = labelled_from 1 (map joinlf (butlast ?gs @ [last ?gs]))"
      using ne by simp
    also have "\<dots> = labelled_from 1 (map joinlf (butlast ?gs)) @ [part_label (length ?gs) @ joinlf (last ?gs)]"
    proof -
      have "Suc (length ?gs - Suc 0) = length ?gs" using two by simp
      then show ?thesis by (simp add: labelled_from_append del: append_butlast_last_id)
    qed
    finally show ?thesis using True by (simp add: sent_groups_def Let_def)
  next
    case False
    then show ?thesis by (simp add: sent_groups_def Let_def)
  qed
  finally show ?thesis .
qed



lemma concat_joinlf: "concat (map joinlf gs) = joinlf (concat gs)"
  by (induction gs) (auto simp: joinlf_append, simp add: joinlf_def)

lemma length_concat_le:
  "\<forall>x\<in>set xs. length x \<le> M \<Longrightarrow> length (concat xs) \<le> M * length xs"
  by (induction xs) auto

lemma length_concat_ge:
  "\<forall>x\<in>set xs. m \<le> length x \<Longrightarrow> m * length xs \<le> length (concat xs)"
  by (induction xs) auto

lemma line_groups_flushed_large:
  "\<forall>l\<in>set lines. length l \<le> 100 \<Longrightarrow>
   \<forall>h\<in>set (butlast (line_groups g lines)). 3900 \<le> length (joinlf h)"
  by (induction g lines rule: line_groups.induct)
     (auto simp: line_groups_not_Nil MAX_RESPONSE_LENGTH_def)

lemma scenario_groups:
  assumes len: "length text = 9000"
    and lines: "\<forall>l\<in>set (split LF text). length l \<le> 100"
  shows "\<exists>g1 g2 g3. line_groups [] (split LF text) = [g1, g2, g3] \<and>
           1001 \<le> length (joinlf g3)"
proof -
  let ?gs = "line_groups [] (split LF text)"
  let ?bs = "map joinlf ?gs"
  have total: "length (concat ?bs) = 9001"
    by (simp add: concat_joinlf concat_line_groups joinlf_split len)
  have "\<forall>l\<in>set (split LF text). length l + 1 \<le> MAX_RESPONSE_LENGTH"
    using lines by (auto simp: MAX_RESPONSE_LENGTH_def)
  moreover have "length (joinlf []) \<le> MAX_RESPONSE_LENGTH" by (simp add: joinlf_def)
  ultimately have "\<forall>h\<in>set ?gs. length (joinlf h) \<le> MAX_RESPONSE_LENGTH"
    by (rule line_groups_bounded[rotated])
  then have up: "\<forall>b\<in>set ?bs. length b \<le> 4000"
    by (simp add: MAX_RESPONSE_LENGTH_def)
  have ne: "?gs \<noteq> []" by (rule line_groups_not_Nil)
  have "length (concat ?bs) \<le> 4000 * length ?bs" by (rule length_concat_le[OF up])
  then have ge3: "3 \<le> length ?gs" using total by simp
  have lo: "\<forall>b\<in>set (map joinlf (butlast ?gs)). 3900 \<le> length b"
    using line_groups_flushed_large[OF lines, of "[]"] by auto
  have split_last: "?bs = map joinlf (butlast ?gs) @ [joinlf (last ?gs)]"
    using ne by (metis append_butlast_last_id list.simps(8) list.simps(9) map_append)
  have "3900 * length (map joinlf (butlast ?gs)) \<le> length (concat (map joinlf (butlast ?gs)))"
    by (rule length_concat_ge[OF lo])
  moreover have tot2: "length (concat (map joinlf (butlast ?gs))) + length (joinlf (last ?gs)) = 9001"
    using total by (subst (asm) split_last) simp
  ultimately have "3900 * (length ?gs - 1) \<le> 9001" by simp
  then have le3: "length ?gs \<le> 3" by simp
  from ge3 le3 have "length ?gs = 3" by simp
  then obtain g1 g2 g3 where gs: "?gs = [g1, g2, g3]"
    by (auto simp: length_Suc_conv numeral_3_eq_3)
  have "length (joinlf g1) \<le> 4000" "length (joinlf g2) \<le> 4000"
    using up gs by auto
  moreover have "length (joinlf g1) + length (joinlf g2) + length (joinlf g3) = 9001"
    using total gs by simp
  ultimately have "1001 \<le> length (joinlf g3)" by simp
  then show ?thesis using gs by blast
qed

lemma split_line: "sep \<notin> set l \<Longrightarrow> split sep (l @ sep # rest) = l # split sep rest"
  by (induction l) (auto split: list.splits)

lemma split_lines:
  "sep \<notin> set l \<Longrightarrow> split sep (concat (replicate n (l @ [sep]))) = replicate n l @ [[]]"
  by (induction n) (auto simp: split_line)

lemma length_concat_replicate: "length (concat (replicate n xs)) = n * length xs"
  by (induction n) auto

lemma LF_notin_line99: "LF \<notin> set line99"
  by (simp add: line99_def LF_def)

lemma length_line99: "length line99 = 99"
  by (simp add: line99_def)

lemma length_text9000: "length text9000 = 9000"
  by (simp add: text9000_def length_concat_replicate length_line99)

lemma split_text9000: "split LF text9000 = replicate 90 line99 @ [[]]"
  unfolding text9000_def by (rule split_lines[OF LF_notin_line99])

lemma concat_replicate_Suc_right: "concat (replicate k x) @ x = concat (replicate (Suc k) x)"
  by (induction k) auto

lemma chunk_loop_fill:
  "100 * (k + n) \<le> 4000 \<Longrightarrow>
   chunk_loop (concat (replicate k (line99 @ [LF]))) part (replicate n line99 @ rest) =
   chunk_loop (concat (replicate (k + n) (line99 @ [LF]))) part rest"
proof (induction n arbitrary: k)
  case 0
  then show ?case by simp
next
  case (Suc n)
  have "concat (replicate k (line99 @ [LF])) @ line99 @ [LF] = concat (replicate (Suc k) (line99 @ [LF]))"
    by (simp add: concat_replicate_Suc_right del: replicate_Suc)
  then have "chunk_loop (concat (replicate k (line99 @ [LF]))) part (replicate (Suc n) line99 @ rest) =
        chunk_loop (concat (replicate (Suc k) (line99 @ [LF]))) part (replicate n line99 @ rest)"
    using Suc.prems
    by (simp add: length_concat_replicate length_line99 MAX_RESPONSE_LENGTH_def del: replicate_Suc
             add: replicate_Suc[of n line99])
  also have "\<dots> = chunk_loop (concat (replicate (Suc k + n) (line99 @ [LF]))) part rest"
    using Suc.prems by (intro Suc.IH) simp
  finally show ?case by simp
qed

lemma chunk_loop_flush:
  "chunk_loop (concat (replicate 40 (line99 @ [LF]))) part (line99 # rest) =
   (part_label part @ concat (replicate 40 (line99 @ [LF]))) #
   chunk_loop (concat (replicate 1 (line99 @ [LF]))) (Suc part) rest"
  by (simp add: length_concat_replicate length_line99 MAX_RESPONSE_LENGTH_def)

lemma a_in_line99: "0x61 \<in> set line99"
  by (simp add: line99_def)

lemma sendLongMessage_text9000:
  "sendLongMessage text9000 =
     labelled_from 1 [concat (replicate 40 (line99 @ [LF])), concat (replicate 40 (line99 @ [LF])),
                      concat (replicate 10 (line99 @ [LF])) @ [LF]]"
proof -
  let ?L = "line99 @ [LF]"
  let ?R2 = "line99 # (replicate 9 line99 @ [[]])"
  let ?R1 = "line99 # (replicate 39 line99 @ ?R2)"
  have r90: "replicate 90 line99 @ [[]] = replicate 40 line99 @ ?R1"
  proof -
    have "replicate 90 line99 = replicate (40 + (1 + (39 + (1 + 9)))) line99" by simp
    then show ?thesis unfolding replicate_add by simp
  qed
  have nb: "trim (concat (replicate 10 ?L) @ [LF]) \<noteq> []"
  proof -
    have "(0x61 :: unit16) \<in> set (concat (replicate 10 ?L) @ [LF])"
      using a_in_line99 by simp
    moreover have "\<not> isWhiteSpace 0x61" by (simp add: isWhiteSpace_def)
    ultimately show ?thesis unfolding trim_Nil_iff by blast
  qed
  have s1: "chunk_loop (concat (replicate 0 ?L)) 1 (replicate 40 line99 @ ?R1) =
            chunk_loop (concat (replicate 40 ?L)) 1 ?R1"
    using chunk_loop_fill[of 0 40 1 ?R1] by simp
  have s2: "chunk_loop (concat (replicate 1 ?L)) (Suc 1) (replicate 39 line99 @ ?R2) =
            chunk_loop (concat (replicate 40 ?L)) (Suc 1) ?R2"
    using chunk_loop_fill[of 1 39 "Suc 1" ?R2] by simp
  have s3: "chunk_loop (concat (replicate 1 ?L)) (Suc (Suc 1)) (replicate 9 line99 @ [[]]) =
            chunk_loop (concat (replicate 10 ?L)) (Suc (Suc 1)) [[]]"
    using chunk_loop_fill[of 1 9 "Suc (Suc 1)" "[[]]"] by simp
  have s4: "chunk_loop (concat (replicate 10 ?L)) (Suc (Suc 1)) [[]] =
            [part_label (Suc (Suc 1)) @ (concat (replicate 10 ?L) @ [LF])]"
    using nb by (simp add: length_concat_replicate length_line99 MAX_RESPONSE_LENGTH_def)
  have "sendLongMessage text9000 = chunk_loop (concat (replicate 0 ?L)) 1 (replicate 40 line99 @ ?R1)"
    by (simp add: sendLongMessage_def length_text9000 split_text9000 r90 MAX_RESPONSE_LENGTH_def)
  also have "\<dots> = (part_label 1 @ concat (replicate 40 ?L)) #
                   (part_label (Suc 1) @ concat (replicate 40 ?L)) #
                   [part_label (Suc (Suc 1)) @ (concat (replicate 10 ?L) @ [LF])]"
    by (simp only: s1 chunk_loop_flush s2 s3 s4)
  finally show ?thesis by simp
qed

lemma tail_text9000: "0x61 \<in> set (drop 8000 text9000)"
proof -
  have "text9000 = concat (replicate 80 (line99 @ [LF])) @ concat (replicate 10 (line99 @ [LF]))"
  proof -
    have "replicate 90 (line99 @ [LF]) = replicate (80 + 10) (line99 @ [LF])" by simp
    then show ?thesis unfolding text9000_def replicate_add by simp
  qed
  moreover have "length (concat (replicate 80 (line99 @ [LF]))) = 8000"
    by (simp add: length_concat_replicate length_line99)
  ultimately have "drop 8000 text9000 = concat (replicate 10 (line99 @ [LF]))"
    by (metis append_eq_conv_conj)
  then show ?thesis using a_in_line99 by simp
qed

section \<open>The claims about the chunker\<close>

text \<open>
  Claim C6, as the code has it. The chunking scenario: a text of 9000 code units whose
  lines are at most 100 units long, with a unit that is not white space among its last
  1000. The chunker sends exactly three parts, labelled \<open>Part 1\<close>, \<open>Part 2\<close> and
  \<open>Part 3\<close>; each body is at most 4000 units long; and the bodies, concatenated, are the
  text followed by one line break (the loop ends every line, the last one too, with a
  line break).
\<close>

theorem C6_chunking_scenario:
  assumes len: "length text = 9000"
    and lines: "\<forall>l\<in>set (split LF text). length l \<le> 100"
    and tail: "\<exists>c\<in>set (drop 8000 text). \<not> isWhiteSpace c"
  shows "\<exists>bs. sendLongMessage text = labelled_from 1 bs \<and> length bs = 3 \<and>
           (\<forall>b\<in>set bs. length b \<le> MAX_RESPONSE_LENGTH) \<and> concat bs = text @ [LF]"
proof -
  let ?gs = "line_groups [] (split LF text)"
  obtain g1 g2 g3 where gs: "?gs = [g1, g2, g3]" and big: "1001 \<le> length (joinlf g3)"
    using scenario_groups[OF len lines] by blast
  have cat: "concat (map joinlf ?gs) = text @ [LF]"
    by (simp add: concat_joinlf concat_line_groups joinlf_split)
  then have eq: "joinlf g1 @ joinlf g2 @ joinlf g3 = text @ [LF]" using gs by simp
  let ?k = "length (joinlf g1) + length (joinlf g2)"
  have "length (joinlf g1 @ joinlf g2 @ joinlf g3) = 9001" using len by (simp add: eq)
  then have k: "?k \<le> 8000" using big by simp
  have g3: "joinlf g3 = drop ?k (text @ [LF])"
    by (simp add: eq[symmetric])
  have "drop 8000 text = take (length text - 8000) (drop 8000 (text @ [LF]))"
    by simp
  then have "set (drop 8000 text) \<subseteq> set (drop 8000 (text @ [LF]))"
    by (metis set_take_subset)
  also have "drop 8000 (text @ [LF]) = drop (8000 - ?k) (drop ?k (text @ [LF]))"
    using k by (simp del: drop_append)
  also have "set \<dots> \<subseteq> set (joinlf g3)"
    unfolding g3 by (rule set_drop_subset)
  finally have "\<exists>c\<in>set (joinlf g3). \<not> isWhiteSpace c" using tail by blast
  then have nb: "trim (joinlf (last ?gs)) \<noteq> []"
    using gs by (auto simp: trim_Nil_iff)
  have sg: "sent_groups text = [g1, g2, g3]"
    using nb gs by (simp add: sent_groups_def Let_def)
  have long: "length text > MAX_RESPONSE_LENGTH" using len by (simp add: MAX_RESPONSE_LENGTH_def)
  have "\<forall>l\<in>set (split LF text). length l + 1 \<le> MAX_RESPONSE_LENGTH"
    using lines by (auto simp: MAX_RESPONSE_LENGTH_def)
  moreover have "length (joinlf []) \<le> MAX_RESPONSE_LENGTH" by (simp add: joinlf_def)
  ultimately have up: "\<forall>h\<in>set ?gs. length (joinlf h) \<le> MAX_RESPONSE_LENGTH"
    by (rule line_groups_bounded[rotated])
  let ?bs = "map joinlf [g1, g2, g3]"
  have "sendLongMessage text = labelled_from 1 ?bs"
    using sendLongMessage_long[OF long] sg by simp
  moreover have "length ?bs = 3" by simp
  moreover have "\<forall>b\<in>set ?bs. length b \<le> MAX_RESPONSE_LENGTH" using up gs by simp
  moreover have "concat ?bs = text @ [LF]" using eq by simp
  ultimately show ?thesis by blast
qed

theorem C6_chunking_scenario_witness:
  "length text9000 = 9000 \<and>
   (\<exists>bs. sendLongMessage text9000 = labelled_from 1 bs \<and> length bs = 3 \<and>
           (\<forall>b\<in>set bs. length b \<le> MAX_RESPONSE_LENGTH) \<and> concat bs = text9000 @ [LF])"
proof -
  have lines: "\<forall>l\<in>set (split LF text9000). length l \<le> 100"
    by (auto simp: split_text9000 length_line99)
  have tail: "\<exists>c\<in>set (drop 8000 text9000). \<not> isWhiteSpace c"
    using tail_text9000 by (rule bexI[rotated]) (simp add: isWhiteSpace_def)
  show ?thesis
    using C6_chunking_scenario[OF length_text9000 lines tail] length_text9000 by blast
qed

text \<open>
  Claim C6 as stated says that the concatenated bodies are the text itself. For the 90 lines
  above the three bodies are 40 lines, 40 lines, and 10 lines with one more line break;
  together they are 9001 code units, not the text's 9000.
\<close>

theorem C6_reconstruction_counterexample:
  "length text9000 = 9000 \<and>
   sendLongMessage text9000 =
     labelled_from 1 [concat (replicate 40 (line99 @ [LF])), concat (replicate 40 (line99 @ [LF])),
                      concat (replicate 10 (line99 @ [LF])) @ [LF]] \<and>
   concat [concat (replicate 40 (line99 @ [LF])), concat (replicate 40 (line99 @ [LF])),
           concat (replicate 10 (line99 @ [LF])) @ [LF]] \<noteq> text9000"
proof -
  have "length (concat [concat (replicate 40 (line99 @ [LF])), concat (replicate 40 (line99 @ [LF])),
           concat (replicate 10 (line99 @ [LF])) @ [LF]]) = 9001"
    by (simp add: length_concat_replicate length_line99)
  then have "concat [concat (replicate 40 (line99 @ [LF])), concat (replicate 40 (line99 @ [LF])),
           concat (replicate 10 (line99 @ [LF])) @ [LF]] \<noteq> text9000"
    using length_text9000 by (metis numeral_eq_iff semiring_norm(88) semiring_norm(89) semiring_norm(87))
  then show ?thesis using length_text9000 sendLongMessage_text9000 by blast
qed



text \<open>
  Claim C10. There is a text longer than the threshold, made of one line that is itself
  longer than the threshold, for which the chunker sends a first part with label
  \<open>Part 1\<close> and an empty body, and then a part \<open>Part 2\<close> whose body, the whole line with
  its line break, is longer than 4000 code units.
\<close>

theorem C10_oversized_line:
  "\<exists>text line. length text > MAX_RESPONSE_LENGTH \<and>
     split LF text = [line] \<and> length line > MAX_RESPONSE_LENGTH \<and>
     sendLongMessage text = [part_label 1 @ [], part_label 2 @ (line @ [LF])] \<and>
     length (line @ [LF]) > MAX_RESPONSE_LENGTH"
proof -
  let ?t = "replicate 4001 (0x61 :: unit16)"
  have s: "split LF ?t = [?t]" by (rule split_no_sep) (simp add: LF_def)
  have nb: "trim (?t @ [LF]) \<noteq> []"
    by (simp add: trim_Nil_iff isWhiteSpace_def)
  have "sendLongMessage ?t = [part_label 1 @ [], part_label 2 @ (?t @ [LF])]"
    unfolding sendLongMessage_def s using nb by (simp add: MAX_RESPONSE_LENGTH_def numeral_2_eq_2)
  then show ?thesis using s by (intro exI[of _ ?t]) (simp add: MAX_RESPONSE_LENGTH_def)
qed

section \<open>The claims about the invoker\<close>

lemma settled_settle:
  "settled (settle oc r) = (case settled r of None \<Rightarrow> Some oc | Some oc' \<Rightarrow> Some oc')"
  by (simp add: settle_def split: option.splits)

lemma step_wweb_latched:
  "settled r = Some oc \<Longrightarrow> settled (runClaude_step_wweb ev r) = Some oc"
  by (cases ev)
     (simp_all add: on_close_wweb_def on_error_def on_timeout_wweb_def settled_settle)

lemma step_baileys_latched:
  "settled r = Some oc \<Longrightarrow> settled (runClaude_step_baileys ev r) = Some oc"
  by (cases ev)
     (simp_all add: on_close_baileys_def on_error_def on_timeout_baileys_def settled_settle)

lemma steps_wweb_latched:
  "settled r = Some oc \<Longrightarrow> settled (foldl (\<lambda>r ev. runClaude_step_wweb ev r) r evs) = Some oc"
  by (induction evs arbitrary: r) (simp_all add: step_wweb_latched)

lemma steps_baileys_latched:
  "settled r = Some oc \<Longrightarrow> settled (foldl (\<lambda>r ev. runClaude_step_baileys ev r) r evs) = Some oc"
  by (induction evs arbitrary: r) (simp_all add: step_baileys_latched)

lemma timer_settles_wweb: "settled (runClaude_step_wweb TimerFired r) \<noteq> None"
  by (simp add: on_timeout_wweb_def settled_settle split: option.splits)

lemma timer_settles_baileys: "settled (runClaude_step_baileys TimerFired r) \<noteq> None"
  by (simp add: on_timeout_baileys_def settled_settle split: option.splits)

lemma steps_wweb_timer:
  "TimerFired \<in> set evs \<Longrightarrow> settled (foldl (\<lambda>r ev. runClaude_step_wweb ev r) r evs) \<noteq> None"
proof (induction evs arbitrary: r)
  case Nil
  then show ?case by simp
next
  case (Cons ev evs)
  show ?case
  proof (cases "ev = TimerFired")
    case True
    then obtain oc where "settled (runClaude_step_wweb ev r) = Some oc"
      using timer_settles_wweb[of r] by auto
    then show ?thesis using steps_wweb_latched by simp
  next
    case False
    then show ?thesis using Cons by simp
  qed
qed

lemma steps_baileys_timer:
  "TimerFired \<in> set evs \<Longrightarrow> settled (foldl (\<lambda>r ev. runClaude_step_baileys ev r) r evs) \<noteq> None"
proof (induction evs arbitrary: r)
  case Nil
  then show ?case by simp
next
  case (Cons ev evs)
  show ?case
  proof (cases "ev = TimerFired")
    case True
    then obtain oc where "settled (runClaude_step_baileys ev r) = Some oc"
      using timer_settles_baileys[of r] by auto
    then show ?thesis using steps_baileys_latched by simp
  next
    case False
    then show ?thesis using Cons by simp
  qed
qed

lemma killed_settled_step:
  "(killed r \<longrightarrow> settled r \<noteq> None) \<Longrightarrow>
   killed (runClaude_step_baileys ev r) \<longrightarrow> settled (runClaude_step_baileys ev r) \<noteq> None"
  by (cases ev)
     (auto simp: on_close_baileys_def on_error_def on_timeout_baileys_def settle_def)

lemma killed_settled_steps:
  "(killed r \<longrightarrow> settled r \<noteq> None) \<Longrightarrow>
   killed (foldl (\<lambda>r ev. runClaude_step_baileys ev r) r evs) \<longrightarrow>
   settled (foldl (\<lambda>r ev. runClaude_step_baileys ev r) r evs) \<noteq> None"
proof (induction evs arbitrary: r)
  case Nil
  then show ?case by simp
next
  case (Cons ev evs)
  show ?case using Cons.IH[OF killed_settled_step[OF Cons.prems]] by simp
qed

lemma killed_settled: "killed (runClaude_baileys evs) \<Longrightarrow> settled (runClaude_baileys evs) \<noteq> None"
  using killed_settled_steps[of new_run evs] by (simp add: runClaude_baileys_def new_run_def)

lemma runClaude_wweb_append:
  "runClaude_wweb (evs @ later) = foldl (\<lambda>r ev. runClaude_step_wweb ev r) (runClaude_wweb evs) later"
  by (simp add: runClaude_wweb_def)

lemma runClaude_baileys_append:
  "runClaude_baileys (evs @ later) = foldl (\<lambda>r ev. runClaude_step_baileys ev r) (runClaude_baileys evs) later"
  by (simp add: runClaude_baileys_def)

text \<open>
  Claim C5. A call of \<open>runClaude\<close> settles once. Whatever events arrive after the
  promise has settled, its outcome stays the same. In particular, when the \<open>close\<close>
  listener settles an open call, its outcome is that of the \<open>close\<close> path whatever
  follows, the timer included; and when the timer settles it, the outcome is the
  time-out rejection whatever follows, \<open>close\<close> included. The call does settle: once the
  timer has fired, the promise is settled.
\<close>

theorem C5_latched_outcome:
  "(settled (runClaude_wweb evs) = Some oc \<longrightarrow> settled (runClaude_wweb (evs @ later)) = Some oc) \<and>
   (settled (runClaude_baileys evs) = Some oc \<longrightarrow> settled (runClaude_baileys (evs @ later)) = Some oc) \<and>
   (settled (runClaude_wweb evs) = None \<longrightarrow>
      settled (runClaude_wweb (evs @ Close code # later)) = Some (close_outcome code (runClaude_wweb evs)) \<and>
      settled (runClaude_wweb (evs @ TimerFired # later)) = Some TIMED_OUT) \<and>
   (settled (runClaude_baileys evs) = None \<longrightarrow>
      settled (runClaude_baileys (evs @ Close code # later)) = Some (close_outcome code (runClaude_baileys evs)) \<and>
      settled (runClaude_baileys (evs @ TimerFired # later)) = Some TIMED_OUT) \<and>
   (TimerFired \<in> set evs \<longrightarrow> settled (runClaude_wweb evs) \<noteq> None \<and> settled (runClaude_baileys evs) \<noteq> None)"
proof (intro conjI impI)
  assume "settled (runClaude_wweb evs) = Some oc"
  then show "settled (runClaude_wweb (evs @ later)) = Some oc"
    by (simp add: runClaude_wweb_append steps_wweb_latched)
next
  assume "settled (runClaude_baileys evs) = Some oc"
  then show "settled (runClaude_baileys (evs @ later)) = Some oc"
    by (simp add: runClaude_baileys_append steps_baileys_latched)
next
  assume n: "settled (runClaude_wweb evs) = None"
  then have "settled (runClaude_step_wweb (Close code) (runClaude_wweb evs)) =
             Some (close_outcome code (runClaude_wweb evs))"
    by (simp add: on_close_wweb_def settle_def)
  then show "settled (runClaude_wweb (evs @ Close code # later)) =
             Some (close_outcome code (runClaude_wweb evs))"
    by (simp only: runClaude_wweb_append foldl_Cons steps_wweb_latched)
  have "settled (runClaude_step_wweb TimerFired (runClaude_wweb evs)) = Some TIMED_OUT"
    using n by (simp add: on_timeout_wweb_def settle_def TIMED_OUT_def)
  then show "settled (runClaude_wweb (evs @ TimerFired # later)) = Some TIMED_OUT"
    by (simp only: runClaude_wweb_append foldl_Cons steps_wweb_latched)
next
  assume n: "settled (runClaude_baileys evs) = None"
  then have nk: "\<not> killed (runClaude_baileys evs)" using killed_settled by blast
  then have "settled (runClaude_step_baileys (Close code) (runClaude_baileys evs)) =
             Some (close_outcome code (runClaude_baileys evs))"
    using n by (simp add: on_close_baileys_def settle_def)
  then show "settled (runClaude_baileys (evs @ Close code # later)) =
             Some (close_outcome code (runClaude_baileys evs))"
    by (simp only: runClaude_baileys_append foldl_Cons steps_baileys_latched)
  have "settled (runClaude_step_baileys TimerFired (runClaude_baileys evs)) = Some TIMED_OUT"
    using n by (simp add: on_timeout_baileys_def settle_def TIMED_OUT_def)
  then show "settled (runClaude_baileys (evs @ TimerFired # later)) = Some TIMED_OUT"
    by (simp only: runClaude_baileys_append foldl_Cons steps_baileys_latched)
next
  assume "TimerFired \<in> set evs"
  then show "settled (runClaude_wweb evs) \<noteq> None" "settled (runClaude_baileys evs) \<noteq> None"
    by (simp_all add: runClaude_wweb_def runClaude_baileys_def steps_wweb_timer steps_baileys_timer)
qed

lemma trim_js_hi: "trim (js ''hi'') = js ''hi''"
  by (simp add: trim_def isWhiteSpace_def js_def)

lemma run_hi_wweb: "settled (runClaude_wweb [Stdout (js ''hi''), Close (Some 0)]) = Some (Resolved (js ''hi''))"
  by (simp add: runClaude_wweb_def new_run_def on_close_wweb_def close_outcome_def settle_def trim_js_hi)
     (simp add: js_def)

lemma run_hi_baileys: "settled (runClaude_baileys [Stdout (js ''hi''), Close (Some 0)]) = Some (Resolved (js ''hi''))"
  by (simp add: runClaude_baileys_def new_run_def on_close_baileys_def close_outcome_def settle_def trim_js_hi)
     (simp add: js_def)

lemma run_nil: "settled (runClaude_wweb []) = None" "settled (runClaude_baileys []) = None"
  by (simp_all add: runClaude_wweb_def runClaude_baileys_def new_run_def)

theorem C5_latched_outcome_witness:
  "settled (runClaude_wweb ([Stdout (js ''hi''), Close (Some 0)] @ [TimerFired])) = Some (Resolved (js ''hi'')) \<and>
   settled (runClaude_baileys ([Stdout (js ''hi''), Close (Some 0)] @ [TimerFired])) = Some (Resolved (js ''hi'')) \<and>
   settled (runClaude_wweb ([] @ TimerFired # [Stdout (js ''hi''), Close (Some 0)])) = Some TIMED_OUT \<and>
   settled (runClaude_baileys ([] @ TimerFired # [Stdout (js ''hi''), Close (Some 0)])) = Some TIMED_OUT \<and>
   settled (runClaude_wweb [Stdout (js ''hi''), TimerFired]) \<noteq> None \<and>
   settled (runClaude_baileys [Stdout (js ''hi''), TimerFired]) \<noteq> None"
proof -
  have t: "TimerFired \<in> set [Stdout (js ''hi''), TimerFired]" by simp
  show ?thesis
    using C5_latched_outcome[where evs = "[Stdout (js ''hi''), Close (Some 0)]" and oc = "Resolved (js ''hi'')"
               and later = "[TimerFired]"]
      C5_latched_outcome[where evs = "[]" and later = "[Stdout (js ''hi''), Close (Some 0)]"]
      C5_latched_outcome[where evs = "[Stdout (js ''hi''), TimerFired]"]
      run_hi_wweb run_hi_baileys run_nil t
    by blast
qed

text \<open>
  Claim C4, as the code has it. When the \<open>close\<close> listener runs on a call that is not yet
  settled (and, in the Baileys file, not killed), both files settle it the same way: it
  resolves exactly when the exit code is 0 or the collected standard output is not
  empty, with the trimmed output, or \<open>(No output)\<close> when that is empty; it rejects exactly
  when the exit code is not 0 and the output is empty, with the trimmed standard error,
  or with \<open>Claude exited with code N\<close> when the trimmed standard error is empty.
\<close>

theorem C4_result_policy:
  assumes "settled r = None" and "\<not> killed r"
  shows "settled (on_close_wweb code r) = settled (on_close_baileys code r) \<and>
    ((\<exists>t. settled (on_close_wweb code r) = Some (Resolved t)) \<longleftrightarrow> (code = Some 0 \<or> outputStr r \<noteq> [])) \<and>
    ((\<exists>e. settled (on_close_wweb code r) = Some (Rejected e)) \<longleftrightarrow> (code \<noteq> Some 0 \<and> outputStr r = [])) \<and>
    (code = Some 0 \<or> outputStr r \<noteq> [] \<longrightarrow>
       settled (on_close_wweb code r) =
         Some (Resolved (if trim (outputStr r) = [] then js ''(No output)'' else trim (outputStr r)))) \<and>
    (code \<noteq> Some 0 \<and> outputStr r = [] \<longrightarrow>
       settled (on_close_wweb code r) =
         Some (Rejected (if trim (errorOutput r) = []
                         then js ''Claude exited with code '' @ render_code code
                         else trim (errorOutput r))))"
  using assms
  by (auto simp: on_close_wweb_def on_close_baileys_def settle_def close_outcome_def)

lemma trim_boom: "trim (js ''boom'') = js ''boom''"
  by (simp add: trim_def isWhiteSpace_def js_def)

lemma run_boom: "runClaude_wweb [Stderr (js ''boom'')] =
    \<lparr>outputStr = [], errorOutput = js ''boom'', killed = False, settled = None, kills = 0\<rparr>"
  by (simp add: runClaude_wweb_def new_run_def)

theorem C4_result_policy_witness:
  "settled (on_close_wweb (Some 1) (runClaude_wweb [Stderr (js ''boom'')])) = Some (Rejected (js ''boom'')) \<and>
   settled (on_close_baileys (Some 1) (runClaude_wweb [Stderr (js ''boom'')])) = Some (Rejected (js ''boom''))"
proof -
  let ?r = "runClaude_wweb [Stderr (js ''boom'')]"
  have a: "settled ?r = None" and b: "\<not> killed ?r" and c: "outputStr ?r = []"
    and d: "trim (errorOutput ?r) = js ''boom''"
    by (simp_all add: run_boom trim_boom)
  have e: "js ''boom'' \<noteq> []" by (simp add: js_def)
  note th = C4_result_policy[OF a b, of "Some 1"]
  have 1: "settled (on_close_baileys (Some 1) ?r) = settled (on_close_wweb (Some 1) ?r)"
    using th[THEN conjunct1] by (rule sym)
  have 2: "settled (on_close_wweb (Some 1) ?r) = Some (Rejected (js ''boom''))"
    using th[THEN conjunct2, THEN conjunct2, THEN conjunct2, THEN conjunct2] c d e by simp
  show ?thesis unfolding 1 using 2 by simp
qed

lemma run_blank_wweb: "runClaude_wweb [Stderr [LF], Close (Some 1)] =
    \<lparr>outputStr = [], errorOutput = [LF], killed = False,
     settled = Some (Rejected (js ''Claude exited with code 1'')), kills = 0\<rparr>"
  by (simp add: runClaude_wweb_def new_run_def on_close_wweb_def close_outcome_def settle_def
      trim_def isWhiteSpace_def LF_def)
     (simp add: js_def)

lemma run_blank_baileys: "runClaude_baileys [Stderr [LF], Close (Some 1)] =
    \<lparr>outputStr = [], errorOutput = [LF], killed = False,
     settled = Some (Rejected (js ''Claude exited with code 1'')), kills = 0\<rparr>"
  by (simp add: runClaude_baileys_def new_run_def on_close_baileys_def close_outcome_def settle_def
      trim_def isWhiteSpace_def LF_def)
     (simp add: js_def)

text \<open>
  Claim C4 as stated gives the generic message only for an empty standard error. For a standard
  error of one line break (not empty, blank) and exit code 1 both files reject with
  \<open>Claude exited with code 1\<close>, not with the trimmed standard error.
\<close>

theorem C4_blank_stderr_counterexample:
  "errorOutput (runClaude_wweb [Stderr [LF], Close (Some 1)]) \<noteq> [] \<and>
   settled (runClaude_wweb [Stderr [LF], Close (Some 1)]) = Some (Rejected (js ''Claude exited with code 1'')) \<and>
   settled (runClaude_baileys [Stderr [LF], Close (Some 1)]) = Some (Rejected (js ''Claude exited with code 1'')) \<and>
   settled (runClaude_wweb [Stderr [LF], Close (Some 1)]) \<noteq>
     Some (Rejected (trim (errorOutput (runClaude_wweb [Stderr [LF], Close (Some 1)]))))"
  by (simp add: run_blank_wweb run_blank_baileys)
     (simp add: js_def trim_def isWhiteSpace_def LF_def)

section \<open>The claims about the message router\<close>




lemma auth_one: "AUTHORIZED_NUMBERS_wweb cfg_one = [js ''4912345'']"
   "AUTHORIZED_NUMBERS_baileys cfg_one = [js ''4912345'']"
  by (simp_all add: AUTHORIZED_NUMBERS_wweb_def AUTHORIZED_NUMBERS_baileys_def cfg_one_def
        js_def COMMA_def PLUS_def trim_def isWhiteSpace_def)





lemma tasks_literal:
  "js ''/tasks'' \<noteq> js ''/help''" "js ''/tasks'' \<noteq> js ''/status''" "js ''/tasks'' \<noteq> []"
  by (simp_all add: js_def)


lemma spawns_simps:
  "spawns (w\<lparr>effects := effects w @ es\<rparr>) = spawns w @ filter is_spawn es"
  "spawns (send_reply d t w) = spawns w"
  "spawns (set_busy s b w) = spawns w"
  "spawns (w\<lparr>tasks := ts\<rparr>) = spawns w"
  by (simp_all add: spawns_def send_reply_def set_busy_def)

lemma busy_set_busy_other: "activeSessions (send_reply d t w) = activeSessions w"
  by (simp add: send_reply_def)








lemma initial_simps:
  "activeSessions initial = Map.empty" "effects initial = []" "tasks initial = []"
  "spawns initial = []" "replies initial = []" "busy Map.empty s = False"
  by (simp_all add: initial_def spawns_def replies_def busy_def)



lemma sender_4912345: "sender_wweb (wweb_msg ''4912345'' t) = js ''4912345''"
  "sender_baileys (key_remoteJid (baileys_text ''4912345'' t)) = js ''4912345''"
  by (simp_all add: sender_wweb_def sender_baileys_def wweb_msg_def baileys_text_def js_def)


section \<open>The claim about the allow-list\<close>

lemma split_joinWith:
  "es \<noteq> [] \<Longrightarrow> \<forall>e\<in>set es. sep \<notin> set e \<Longrightarrow> split sep (joinWith sep es) = es"
  by (induction sep es rule: joinWith.induct) (simp_all add: split_no_sep split_line)

lemma joinWith_Nil_iff: "joinWith sep es = [] \<longleftrightarrow> es = [] \<or> es = [[]]"
  by (induction sep es rule: joinWith.induct) auto

lemma replace_leading_plus_id: "\<forall>t. v \<noteq> PLUS # t \<Longrightarrow> replace_leading_plus v = v"
  by (cases v) auto

text \<open>
  Claim C9, as the code has it. For a configuration string that lists entries separated
  by commas, the allow-list of \<open>index.js\<close> is the entries trimmed of surrounding white
  space, and that of \<open>part_000\<close> is the entries trimmed and then rid of one leading plus
  sign. So in \<open>part_000\<close> an entry that trims to a plus sign followed by a value gives the
  same allow-list as an entry that trims to the value (for a value that does not itself
  begin with a plus sign).
\<close>

theorem C9_allow_list_parsing:
  assumes "es \<noteq> []" and "\<forall>e\<in>set es. COMMA \<notin> set e" and "es \<noteq> [[]]"
  shows "AUTHORIZED_NUMBERS_wweb (cfg\<lparr>WA_AUTHORIZED_NUMBERS := Some (joinWith COMMA es)\<rparr>) = map trim es \<and>
         AUTHORIZED_NUMBERS_baileys (cfg\<lparr>WA_AUTHORIZED_NUMBERS := Some (joinWith COMMA es)\<rparr>) =
           map (\<lambda>n. replace_leading_plus (trim n)) es \<and>
         (i < length es \<and> COMMA \<notin> set e' \<and> trim e' = PLUS # trim (es ! i) \<and>
          (\<forall>t. trim (es ! i) \<noteq> PLUS # t) \<longrightarrow>
            AUTHORIZED_NUMBERS_baileys (cfg\<lparr>WA_AUTHORIZED_NUMBERS := Some (joinWith COMMA (es[i := e']))\<rparr>) =
            AUTHORIZED_NUMBERS_baileys (cfg\<lparr>WA_AUTHORIZED_NUMBERS := Some (joinWith COMMA es)\<rparr>))"
proof (intro conjI impI)
  have ne: "joinWith COMMA es \<noteq> []" using assms by (simp add: joinWith_Nil_iff)
  have sp: "split COMMA (joinWith COMMA es) = es" using assms by (simp add: split_joinWith)
  show "AUTHORIZED_NUMBERS_wweb (cfg\<lparr>WA_AUTHORIZED_NUMBERS := Some (joinWith COMMA es)\<rparr>) = map trim es"
    using ne sp by (simp add: AUTHORIZED_NUMBERS_wweb_def)
  show b: "AUTHORIZED_NUMBERS_baileys (cfg\<lparr>WA_AUTHORIZED_NUMBERS := Some (joinWith COMMA es)\<rparr>) =
           map (\<lambda>n. replace_leading_plus (trim n)) es"
    using ne sp by (simp add: AUTHORIZED_NUMBERS_baileys_def)
  assume h: "i < length es \<and> COMMA \<notin> set e' \<and> trim e' = PLUS # trim (es ! i) \<and>
          (\<forall>t. trim (es ! i) \<noteq> PLUS # t)"
  let ?es = "es[i := e']"
  have e'ne: "e' \<noteq> []" using h by (auto simp: trim_def)
  have "?es \<noteq> []" using assms by simp
  moreover have "\<forall>e\<in>set ?es. COMMA \<notin> set e"
    using assms h by (auto dest!: set_update_subset_insert[THEN subsetD])
  moreover have "?es \<noteq> [[]]"
  proof
    assume "?es = [[]]"
    moreover have "e' \<in> set ?es" using h by (simp add: set_update_memI)
    ultimately show False using e'ne by simp
  qed
  ultimately have ne2: "joinWith COMMA ?es \<noteq> []" and sp2: "split COMMA (joinWith COMMA ?es) = ?es"
    by (simp_all add: joinWith_Nil_iff split_joinWith)
  have "map (\<lambda>n. replace_leading_plus (trim n)) ?es = map (\<lambda>n. replace_leading_plus (trim n)) es"
  proof -
    have "replace_leading_plus (trim e') = replace_leading_plus (trim (es ! i))"
      using h by (simp add: replace_leading_plus_id)
    then show ?thesis using h by (simp add: map_update list_update_same_conv)
  qed
  then show "AUTHORIZED_NUMBERS_baileys (cfg\<lparr>WA_AUTHORIZED_NUMBERS := Some (joinWith COMMA ?es)\<rparr>) =
            AUTHORIZED_NUMBERS_baileys (cfg\<lparr>WA_AUTHORIZED_NUMBERS := Some (joinWith COMMA es)\<rparr>)"
    using ne2 sp2 b by (simp add: AUTHORIZED_NUMBERS_baileys_def)
qed

lemma trim_examples:
  "trim (js '' +4912345 '') = PLUS # js ''4912345''"
  "trim (js ''4912345'') = js ''4912345''"
  "trim (js ''4955'') = js ''4955''"
  by (simp_all add: trim_def isWhiteSpace_def js_def PLUS_def)

theorem C9_allow_list_parsing_witness:
  "AUTHORIZED_NUMBERS_wweb (cfg_none\<lparr>WA_AUTHORIZED_NUMBERS := Some (js ''4955,4912345'')\<rparr>) =
      [js ''4955'', js ''4912345''] \<and>
   AUTHORIZED_NUMBERS_baileys (cfg_none\<lparr>WA_AUTHORIZED_NUMBERS := Some (js ''4955,4912345'')\<rparr>) =
      [js ''4955'', js ''4912345''] \<and>
   AUTHORIZED_NUMBERS_baileys (cfg_none\<lparr>WA_AUTHORIZED_NUMBERS := Some (js ''4955, +4912345 '')\<rparr>) =
   AUTHORIZED_NUMBERS_baileys (cfg_none\<lparr>WA_AUTHORIZED_NUMBERS := Some (js ''4955,4912345'')\<rparr>)"
proof -
  let ?es = "[js ''4955'', js ''4912345'']"
  have j1: "js ''4955'' @ COMMA # js ''4912345'' = js ''4955,4912345''"
    by (simp add: js_def COMMA_def)
  have j2: "js ''4955'' @ COMMA # js '' +4912345 '' = js ''4955, +4912345 ''"
    by (simp add: js_def COMMA_def)
  have a: "?es \<noteq> []" and c: "?es \<noteq> [[]]" by simp_all
  have b: "\<forall>e\<in>set ?es. COMMA \<notin> set e" by (simp add: js_def COMMA_def)
  have h: "1 < length ?es \<and> COMMA \<notin> set (js '' +4912345 '') \<and>
           trim (js '' +4912345 '') = PLUS # trim (?es ! 1) \<and> (\<forall>t. trim (?es ! 1) \<noteq> PLUS # t)"
    by (simp add: trim_examples) (simp add: js_def COMMA_def PLUS_def)
  have r: "replace_leading_plus (js ''4955'') = js ''4955''"
     "replace_leading_plus (js ''4912345'') = js ''4912345''"
    by (simp_all add: js_def PLUS_def)
  show ?thesis
    using C9_allow_list_parsing[OF a b c, of cfg_none 1 "js '' +4912345 ''"] h
    by (simp add: j1 j2 trim_examples r)
qed

lemma auth_plus: "AUTHORIZED_NUMBERS_wweb cfg_plus = [js ''+4912345'']"
   "AUTHORIZED_NUMBERS_baileys cfg_plus = [js ''4912345'']"
  by (simp_all add: AUTHORIZED_NUMBERS_wweb_def AUTHORIZED_NUMBERS_baileys_def cfg_plus_def
        js_def COMMA_def PLUS_def trim_def isWhiteSpace_def)

text \<open>
  Claim C9 as stated says this of both files. In \<open>index.js\<close> the plus sign stays: the
  configuration \<open>+4912345\<close> does not authorize the sender \<open>4912345\<close>, whose message gets
  no reply, while the configuration \<open>4912345\<close> does.
\<close>

theorem C9_leading_plus_counterexample:
  "sender_wweb (wweb_msg ''4912345'' ''hi'') \<in> set (AUTHORIZED_NUMBERS_wweb cfg_one) \<and>
   sender_wweb (wweb_msg ''4912345'' ''hi'') \<notin> set (AUTHORIZED_NUMBERS_wweb cfg_plus) \<and>
   on_message_wweb cfg_plus (wweb_msg ''4912345'' ''hi'') initial = initial"
proof -
  have a: "sender_wweb (wweb_msg ''4912345'' ''hi'') \<in> set (AUTHORIZED_NUMBERS_wweb cfg_one)"
    by (simp add: auth_one sender_4912345)
  have b: "sender_wweb (wweb_msg ''4912345'' ''hi'') \<notin> set (AUTHORIZED_NUMBERS_wweb cfg_plus)"
    by (simp add: auth_plus sender_4912345) (simp add: js_def)
  have "on_message_wweb cfg_plus (wweb_msg ''4912345'' ''hi'') initial = initial"
    using b by (simp add: on_message_wweb_def)
  then show ?thesis using a b by simp
qed

section \<open>The claims about the session tracker\<close>

lemma activeSessions_simps:
  "activeSessions (send_reply d t w) = activeSessions w"
  "activeSessions (send_all d ts w) = activeSessions w"
  "activeSessions (deliver d oc w) = activeSessions w"
  "activeSessions (set_busy s b w) = (activeSessions w)(s \<mapsto> b)"
  by (simp_all add: send_reply_def send_all_def deliver_def set_busy_def split: outcome.splits)











lemma WORK_DIR_cfg_one: "WORK_DIR cfg_one = js ''/srv''"
  by (simp add: cfg_one_def)

lemma run_the_tests:
  "trim (js ''run the tests'') = js ''run the tests''"
  "toLowerCase (js ''run the tests'') \<noteq> js ''/help''"
  "toLowerCase (js ''run the tests'') \<noteq> js ''/status''"
  "toLowerCase (js ''run the tests'') \<noteq> js ''/tasks''"
  "js ''run the tests'' \<noteq> []"
  by (simp_all add: trim_def isWhiteSpace_def toLowerCase_def js_def)

lemma busy_wweb_eq:
  "busy_wweb =
     \<lparr>activeSessions = [js ''4912345'' \<mapsto> True],
      effects = [Reply (js ''4912345'' @ js ''@c.us'') PROCESSING,
                 spawn_claude (js ''run the tests'') (js ''/srv'')],
      tasks = [\<lparr>tw_message = wweb_msg ''4912345'' ''run the tests'', tw_kind = FreeForm,
                tw_run = new_run\<rparr>]\<rparr>"
proof -
  have s: "sender_wweb (wweb_msg ''4912345'' ''run the tests'') = js ''4912345''"
    by (rule sender_4912345)
  have f: "isGroupMsg (wweb_msg ''4912345'' ''run the tests'') = False"
    "isStatus (wweb_msg ''4912345'' ''run the tests'') = False"
    "body (wweb_msg ''4912345'' ''run the tests'') = js ''run the tests''"
    "msg_from (wweb_msg ''4912345'' ''run the tests'') = js ''4912345'' @ js ''@c.us''"
    by (simp_all add: wweb_msg_def)
  show ?thesis
    unfolding busy_wweb_def on_message_wweb_def Let_def s f
    by (simp add: auth_one run_the_tests initial_simps send_reply_def set_busy_def initial_def
          WORK_DIR_cfg_one)
qed



text \<open>
  The busy gate. In both files a free-form message of a busy sender gets the notice
  and nothing else; in \<open>part_000\<close> this includes \<open>/tasks\<close>, whose text is rewritten before
  the gate.
\<close>

lemma busy_gate_wweb:
  assumes "\<not> isGroupMsg m" "\<not> isStatus m" "body m \<noteq> []"
    and "sender_wweb m \<in> set (AUTHORIZED_NUMBERS_wweb cfg)"
    and "toLowerCase (trim (body m)) \<noteq> js ''/help''"
    and "toLowerCase (trim (body m)) \<noteq> js ''/status''"
    and "toLowerCase (trim (body m)) \<noteq> js ''/tasks''"
    and "busy (activeSessions w) (sender_wweb m)"
  shows "on_message_wweb cfg m w = send_reply (msg_from m) STILL_PROCESSING_wweb w"
proof -
  have "AUTHORIZED_NUMBERS_wweb cfg \<noteq> []" using assms(4) by auto
  then show ?thesis using assms by (simp add: on_message_wweb_def Let_def)
qed

lemma busy_gate_baileys:
  assumes "toLowerCase text \<noteq> js ''/help''" "toLowerCase text \<noteq> js ''/status''"
    and "busy (activeSessions w) (sender_baileys jid)"
  shows "handleMessage cfg jid text w = (send_reply jid STILL_PROCESSING_baileys w, False)"
  using assms by (simp add: handleMessage_def Let_def)

text \<open>
  In \<open>part_000\<close> every run of the bridge keeps at most one invocation in flight per
  sender: an invocation starts only for a sender who is not busy and makes them busy,
  and the flag falls only when that invocation's promise has settled.
\<close>

lemma in_flight_send_reply [simp]: "in_flight_baileys (send_reply d t w) s = in_flight_baileys w s"
  by (simp add: in_flight_baileys_def send_reply_def)

lemma one_per_sender_send_reply: "one_per_sender w \<Longrightarrow> one_per_sender (send_reply d t w)"
  by (simp add: one_per_sender_def activeSessions_simps)

lemma one_per_sender_handleMessage:
  assumes "one_per_sender w" and "handleMessage cfg jid text w = (w1, awaiting)"
  shows "if awaiting
         then one_per_sender (w1\<lparr>tasks := tasks w1 @ [\<lparr>tb_jid = jid, tb_run = new_run, tb_rest = rest\<rparr>]\<rparr>)
         else one_per_sender w1"
proof (cases awaiting)
  case False
  then have "\<exists>t. w1 = send_reply jid t w"
    using assms(2) by (auto simp: handleMessage_def Let_def split: if_splits)
  then show ?thesis using False assms(1) one_per_sender_send_reply by auto
next
  case True
  then have nb: "\<not> busy (activeSessions w) (sender_baileys jid)"
    and w1: "activeSessions w1 = (activeSessions w)(sender_baileys jid \<mapsto> True)" "tasks w1 = tasks w"
    using assms(2)
    by (auto simp: handleMessage_def Let_def send_reply_def set_busy_def split: if_splits)
  let ?w2 = "w1\<lparr>tasks := tasks w1 @ [\<lparr>tb_jid = jid, tb_run = new_run, tb_rest = rest\<rparr>]\<rparr>"
  have zero: "in_flight_baileys w (sender_baileys jid) = 0"
    using assms(1) nb by (simp add: one_per_sender_def)
  have "in_flight_baileys ?w2 s = (if busy (activeSessions ?w2) s then 1 else 0)" for s
  proof (cases "s = sender_baileys jid")
    case True
    have "in_flight_baileys ?w2 s = in_flight_baileys w s + 1"
      using True w1 by (simp add: in_flight_baileys_def new_run_def)
    then show ?thesis using True zero w1 by (simp add: busy_def)
  next
    case False
    have "in_flight_baileys ?w2 s = in_flight_baileys w s"
      using False w1 by (auto simp: in_flight_baileys_def)
    moreover have "busy (activeSessions ?w2) s = busy (activeSessions w) s"
      using False w1 by (simp add: busy_def)
    ultimately show ?thesis using assms(1) by (simp add: one_per_sender_def)
  qed
  then show ?thesis using True by (simp add: one_per_sender_def)
qed

lemma one_per_sender_upsert:
  "one_per_sender w \<Longrightarrow> one_per_sender (messages_upsert cfg msgs w)"
proof (induction msgs arbitrary: w)
  case Nil
  then show ?case by simp
next
  case (Cons msg msgs)
  show ?case
  proof (cases "msg_message msg")
    case None
    then show ?thesis using Cons by simp
  next
    case (Some content)
    obtain w1 awaiting where h:
      "handleMessage cfg (key_remoteJid msg) (trim (text_of content)) w = (w1, awaiting)"
      by (cases "handleMessage cfg (key_remoteJid msg) (trim (text_of content)) w") auto
    note hm = one_per_sender_handleMessage[OF Cons.prems h, of msgs]
    show ?thesis
    proof (cases awaiting)
      case True
      then show ?thesis using Some h hm Cons by simp
    next
      case False
      then have "one_per_sender (messages_upsert cfg msgs w1)" using hm Cons.IH by simp
      then show ?thesis using Some h False Cons by simp
    qed
  qed
qed


lemma length_filter_update:
  "i < length xs \<Longrightarrow>
   length (filter P (xs[i := y])) + (if P (xs ! i) then 1 else 0) =
   length (filter P xs) + (if P y then 1 else 0)"
proof (induction xs arbitrary: i)
  case Nil
  then show ?case by simp
next
  case (Cons x xs)
  then show ?case by (cases i) auto
qed

lemma one_per_sender_resume:
  assumes inv: "one_per_sender w" and i: "i < length (tasks w)"
    and open_: "settled (tb_run (tasks w ! i)) = None" and closed: "settled r = Some oc"
  shows "one_per_sender
           (handleMessage_resume (tb_jid (tasks w ! i)) oc
              (w\<lparr>tasks := (tasks w)[i := (tasks w ! i)\<lparr>tb_run := r\<rparr>]\<rparr>))"
proof -
  let ?t = "tasks w ! i"
  let ?s = "sender_baileys (tb_jid ?t)"
  let ?w1 = "w\<lparr>tasks := (tasks w)[i := ?t\<lparr>tb_run := r\<rparr>]\<rparr>"
  let ?w2 = "handleMessage_resume (tb_jid ?t) oc ?w1"
  have tk: "tasks ?w2 = (tasks w)[i := ?t\<lparr>tb_run := r\<rparr>]"
    by (simp add: handleMessage_resume_def set_busy_def deliver_def send_all_def send_reply_def
          split: outcome.splits)
  have cnt: "in_flight_baileys ?w2 s + (if ?s = s then 1 else 0) = in_flight_baileys w s" for s
    using length_filter_update[OF i,
        of "\<lambda>t. sender_baileys (tb_jid t) = s \<and> settled (tb_run t) = None" "?t\<lparr>tb_run := r\<rparr>"]
      open_ closed tk
    by (auto simp: in_flight_baileys_def split: if_splits)
  have ses: "activeSessions ?w2 = (activeSessions w)(?s \<mapsto> False)"
    by (simp add: handleMessage_resume_def activeSessions_simps)
  have "in_flight_baileys ?w2 s = (if busy (activeSessions ?w2) s then 1 else 0)" for s
  proof (cases "s = ?s")
    case True
    have "in_flight_baileys w ?s \<le> 1" using inv by (simp add: one_per_sender_def)
    then have "in_flight_baileys ?w2 s = 0" using cnt[of s] True by simp
    then show ?thesis using True ses by (simp add: busy_def)
  next
    case False
    then have "in_flight_baileys ?w2 s = in_flight_baileys w s" using cnt[of s] by simp
    moreover have "busy (activeSessions ?w2) s = busy (activeSessions w) s"
      using False ses by (simp add: busy_def)
    ultimately show ?thesis using inv by (simp add: one_per_sender_def)
  qed
  then show ?thesis by (simp add: one_per_sender_def)
qed

lemma one_per_sender_same:
  assumes inv: "one_per_sender w" and i: "i < length (tasks w)"
    and same: "settled r = None \<longleftrightarrow> settled (tb_run (tasks w ! i)) = None"
  shows "one_per_sender (w\<lparr>tasks := (tasks w)[i := (tasks w ! i)\<lparr>tb_run := r\<rparr>]\<rparr>)"
proof -
  let ?t = "tasks w ! i"
  have "in_flight_baileys (w\<lparr>tasks := (tasks w)[i := ?t\<lparr>tb_run := r\<rparr>]\<rparr>) s = in_flight_baileys w s" for s
    using length_filter_update[OF i,
        of "\<lambda>t. sender_baileys (tb_jid t) = s \<and> settled (tb_run t) = None" "?t\<lparr>tb_run := r\<rparr>"]
      same
    by (simp add: in_flight_baileys_def)
  then show ?thesis using inv by (simp add: one_per_sender_def)
qed

lemma one_per_sender_proc:
  assumes "one_per_sender w"
  shows "one_per_sender (on_proc_baileys cfg i ev w)"
proof (cases "i < length (tasks w)")
  case False
  then show ?thesis using assms by (simp add: on_proc_baileys_def)
next
  case True
  let ?t = "tasks w ! i"
  let ?r = "runClaude_step_baileys ev (tb_run ?t)"
  show ?thesis
  proof (cases "settled (tb_run ?t)")
    case (Some oc)
    then have "settled ?r = Some oc" by (rule step_baileys_latched)
    then have "one_per_sender (w\<lparr>tasks := (tasks w)[i := ?t\<lparr>tb_run := ?r\<rparr>]\<rparr>)"
      using Some by (intro one_per_sender_same[OF assms True]) simp
    then show ?thesis using True Some by (simp add: on_proc_baileys_def Let_def)
  next
    case None
    show ?thesis
    proof (cases "settled ?r")
      case n: None
      then have "one_per_sender (w\<lparr>tasks := (tasks w)[i := ?t\<lparr>tb_run := ?r\<rparr>]\<rparr>)"
        using None by (intro one_per_sender_same[OF assms True]) simp
      then show ?thesis using True None n by (simp add: on_proc_baileys_def Let_def)
    next
      case (Some oc)
      have "one_per_sender (handleMessage_resume (tb_jid ?t) oc
              (w\<lparr>tasks := (tasks w)[i := ?t\<lparr>tb_run := ?r\<rparr>]\<rparr>))"
        by (rule one_per_sender_resume[OF assms True None Some])
      then show ?thesis
        using True None Some by (simp add: on_proc_baileys_def Let_def one_per_sender_upsert)
    qed
  qed
qed

lemma one_per_sender_step: "one_per_sender w \<Longrightarrow> one_per_sender (step_baileys cfg e w)"
  by (cases e) (simp_all add: one_per_sender_upsert one_per_sender_proc)

lemma one_per_sender_steps:
  "one_per_sender w \<Longrightarrow> one_per_sender (foldl (\<lambda>w e. step_baileys cfg e w) w evs)"
  by (induction evs arbitrary: w) (simp_all add: one_per_sender_step)

lemma one_per_sender_initial: "one_per_sender initial"
  by (simp add: one_per_sender_def in_flight_baileys_def initial_def busy_def)

lemma baileys_one_in_flight: "in_flight_baileys (run_baileys cfg evs) sender \<le> 1"
proof -
  have "one_per_sender (run_baileys cfg evs)"
    unfolding run_baileys_def by (rule one_per_sender_steps[OF one_per_sender_initial])
  then show ?thesis by (simp add: one_per_sender_def)
qed

text \<open>
  Claim C2, at the input where \<open>index.js\<close> departs from it. The sender \<open>4912345\<close> is
  busy with a free-form prompt and sends \<open>/tasks\<close>: the handler spawns a second
  subprocess and sends no notice, and two invocations of that sender are in flight.
\<close>

theorem C2_tasks_bypasses_busy_gate:
  "busy (activeSessions busy_wweb) (js ''4912345'') \<and>
   effects (on_message_wweb cfg_one (wweb_msg ''4912345'' ''/tasks'') busy_wweb) =
     effects busy_wweb @ [spawn_claude TASKS_PROMPT (js ''/srv'')] \<and>
   in_flight_wweb (on_message_wweb cfg_one (wweb_msg ''4912345'' ''/tasks'') busy_wweb) (js ''4912345'') = 2"
proof -
  let ?m = "wweb_msg ''4912345'' ''/tasks''"
  have l: "toLowerCase (trim (js ''/tasks'')) = js ''/tasks''"
    by (simp add: trim_def isWhiteSpace_def toLowerCase_def lowerUnit_def js_def)
  have f: "isGroupMsg ?m = False" "isStatus ?m = False" "body ?m = js ''/tasks''"
    by (simp_all add: wweb_msg_def)
  have e: "on_message_wweb cfg_one ?m busy_wweb =
        busy_wweb\<lparr>effects := effects busy_wweb @ [spawn_claude TASKS_PROMPT (js ''/srv'')],
                  tasks := tasks busy_wweb @ [\<lparr>tw_message = ?m, tw_kind = TasksCommand, tw_run = new_run\<rparr>]\<rparr>"
    unfolding on_message_wweb_def Let_def sender_4912345 f l
    by (simp add: auth_one tasks_literal WORK_DIR_cfg_one)
  have "busy (activeSessions busy_wweb) (js ''4912345'')"
    by (simp add: busy_wweb_eq busy_def)
  moreover have "in_flight_wweb (on_message_wweb cfg_one ?m busy_wweb) (js ''4912345'') = 2"
    unfolding e by (simp add: in_flight_wweb_def busy_wweb_eq sender_4912345) (simp add: new_run_def)
  ultimately show ?thesis unfolding e by simp
qed

end
